theory Spec2Isabelle
  imports Complex_Main "HOL-Library.AList" "HOL-Library.Log_Nat"
begin

section \<open>JavaScript numbers\<close>

text \<open>
  A Number is an IEEE-754 double: a finite value (a rational; \<open>Num 0\<close> is \<open>+0\<close>),
  \<open>-0\<close>, an infinity or NaN. \<^verbatim>\<open>JSON.stringify\<close> writes a finite Number as a number
  (\<open>-0\<close> as \<open>0\<close>) and every other one as \<^verbatim>\<open>null\<close>.
\<close>

datatype jsnum = Num rat | NegZero | PosInf | NegInf | NaN

datatype json = JNumber rat | JNull

fun stringifyNumber :: "jsnum \<Rightarrow> json" where
  "stringifyNumber (Num q) = JNumber q"
| "stringifyNumber NegZero = JNumber 0"
| "stringifyNumber x = JNull"

text \<open>
  Rounding of a positive rational to the nearest double, ties to the even
  significand: 53 significant bits at the binary exponent of the value, which is
  taken to be at least \<open>-1022\<close> (below \<^verbatim>\<open>2^-1022\<close> the doubles are the multiples of
  \<^verbatim>\<open>2^-1074\<close>). \<open>floorlog2 a\<close> is the exponent \<open>e\<close> with \<^verbatim>\<open>2^e <= a < 2^(e+1)\<close>.
\<close>

definition pow2 :: "int \<Rightarrow> rat" where
  "pow2 e = (if e \<ge> 0 then 2 ^ nat e else 1 / 2 ^ nat (- e))"

definition floorlog2 :: "rat \<Rightarrow> int" where
  "floorlog2 a = (if a \<ge> 1 then bitlen \<lfloor>a\<rfloor> - 1 else - bitlen (\<lceil>1 / a\<rceil> - 1))"

definition roundHalfEven :: "rat \<Rightarrow> int" where
  "roundHalfEven m =
     (let f = \<lfloor>m\<rfloor>; d = m - of_int f
      in if d < 1 / 2 then f else if d > 1 / 2 then f + 1 else if even f then f else f + 1)"

definition roundMag :: "rat \<Rightarrow> rat" where
  "roundMag a =
     (let e = max (floorlog2 a) (- 1022); ulp = pow2 (e - 52)
      in of_int (roundHalfEven (a / ulp)) * ulp)"

text \<open>
  The double nearest to a rational: what an arithmetic operation returns for the
  exact nonzero result \<open>x\<close>, and what \<^verbatim>\<open>JSON.parse\<close> returns for a number literal of
  value \<open>x\<close>. A magnitude that rounds to \<^verbatim>\<open>2^1024\<close> overflows to an infinity, one
  that rounds to 0 underflows to a zero of the same sign.
\<close>

definition fl :: "rat \<Rightarrow> jsnum" where
  "fl x =
     (if x = 0 then Num 0
      else let r = roundMag \<bar>x\<bar>
           in if r \<ge> pow2 1024 then (if x > 0 then PosInf else NegInf)
              else if r = 0 then (if x > 0 then Num 0 else NegZero)
              else Num (if x > 0 then r else - r))"

definition parseNumber :: "rat \<Rightarrow> jsnum" where
  "parseNumber x = fl x"

text \<open>Sign bit and magnitude of a Number (\<open>None\<close> for an infinity).\<close>

fun negative :: "jsnum \<Rightarrow> bool" where
  "negative (Num q) = (q < 0)"
| "negative NegZero = True"
| "negative NegInf = True"
| "negative x = False"

fun magnitude :: "jsnum \<Rightarrow> rat option" where
  "magnitude (Num q) = Some \<bar>q\<bar>"
| "magnitude NegZero = Some 0"
| "magnitude x = None"

definition signedZero :: "bool \<Rightarrow> jsnum" where
  "signedZero neg = (if neg then NegZero else Num 0)"

definition signedInf :: "bool \<Rightarrow> jsnum" where
  "signedInf neg = (if neg then NegInf else PosInf)"

text \<open>The operators \<^verbatim>\<open>/\<close>, \<^verbatim>\<open>*\<close> and \<^verbatim>\<open>> 0\<close>, and \<^verbatim>\<open>Math.round\<close> (ties towards \<open>+\<infinity>\<close>).\<close>

definition jsdiv :: "jsnum \<Rightarrow> jsnum \<Rightarrow> jsnum" where
  "jsdiv a b =
     (if a = NaN \<or> b = NaN then NaN
      else let neg = (negative a \<noteq> negative b)
           in case (magnitude a, magnitude b) of
                (None, None) \<Rightarrow> NaN
              | (None, Some q) \<Rightarrow> signedInf neg
              | (Some p, None) \<Rightarrow> signedZero neg
              | (Some p, Some q) \<Rightarrow>
                  if q = 0 then (if p = 0 then NaN else signedInf neg)
                  else if p = 0 then signedZero neg
                  else fl ((if neg then - 1 else 1) * (p / q)))"

definition jsmul :: "jsnum \<Rightarrow> jsnum \<Rightarrow> jsnum" where
  "jsmul a b =
     (if a = NaN \<or> b = NaN then NaN
      else let neg = (negative a \<noteq> negative b)
           in case (magnitude a, magnitude b) of
                (None, None) \<Rightarrow> signedInf neg
              | (None, Some q) \<Rightarrow> if q = 0 then NaN else signedInf neg
              | (Some p, None) \<Rightarrow> if p = 0 then NaN else signedInf neg
              | (Some p, Some q) \<Rightarrow>
                  if p = 0 \<or> q = 0 then signedZero neg
                  else fl ((if neg then - 1 else 1) * (p * q)))"

fun gt0 :: "jsnum \<Rightarrow> bool" where
  "gt0 (Num q) = (q > 0)"
| "gt0 PosInf = True"
| "gt0 x = False"

fun mathRound :: "jsnum \<Rightarrow> jsnum" where
  "mathRound (Num q) =
     (if \<lfloor>q + 1 / 2\<rfloor> = 0 \<and> q < 0 then NegZero else Num (of_int \<lfloor>q + 1 / 2\<rfloor>))"
| "mathRound x = x"

section \<open>Data model of server.js\<close>

text \<open>
  One entry of a record's \<^verbatim>\<open>accessLogs\<close> array. \<^verbatim>\<open>logAccess\<close> builds it with
  \<^verbatim>\<open>timestamp\<close>, \<^verbatim>\<open>action\<close>, \<^verbatim>\<open>ip\<close>, \<^verbatim>\<open>userAgent\<close> and the spread metadata (only
  \<^verbatim>\<open>page\<close> is ever passed); the track-session handler later adds the last four
  fields. A field that is \<^verbatim>\<open>undefined\<close> is dropped by \<^verbatim>\<open>JSON.stringify\<close>, so an
  absent field is \<open>None\<close>. The numeric fields hold what \<^verbatim>\<open>JSON.stringify\<close> writes
  for the Number assigned.
\<close>

record accessLog =
  timestamp :: string
  action :: string
  ip :: "string option"
  userAgent :: "string option"
  page :: "json option"
  timeSpent :: "json option"
  pagesViewed :: "json option"
  totalPages :: "json option"
  completion :: "json option"

text \<open>The object stored under a tracking identifier by the upload handler.\<close>

record trackingRecord =
  trackingId :: string
  shortId :: string
  originalName :: string
  fileName :: string
  uploadedAt :: string
  accessLogs :: "accessLog list"
  totalViews :: nat
  totalDownloads :: nat
  allowDownload :: bool
  viewerUrl :: string

text \<open>
  The parsed content of \<^verbatim>\<open>data/tracking.json\<close>: a JavaScript object, its own
  properties in enumeration order (insertion order, the keys being UUID strings).
\<close>

type_synonym trackingData = "(string \<times> trackingRecord) list"

text \<open>
  The persistent state: \<^verbatim>\<open>data/tracking.json\<close> (\<open>None\<close> while the file does not
  exist) and the names of the files in \<^verbatim>\<open>uploads/\<close>.
\<close>

record server =
  tracking_json :: "trackingData option"
  uploads :: "string set"

text \<open>
  What a handler reads from \<^verbatim>\<open>req\<close> and from the clock:
  \<^verbatim>\<open>new Date().toISOString()\<close>, \<^verbatim>\<open>req.ip\<close>, \<^verbatim>\<open>req.connection.remoteAddress\<close>,
  \<^verbatim>\<open>req.get('user-agent')\<close> and \<^verbatim>\<open>req.get('host')\<close>.
\<close>

record request =
  now :: string
  req_ip :: "string option"
  remoteAddress :: "string option"
  user_agent :: "string option"
  host :: "string option"

text \<open>The multipart part in field \<^verbatim>\<open>pdf\<close>, as multer hands it to \<^verbatim>\<open>fileFilter\<close>.\<close>

record upload_file =
  mimetype :: string
  originalname :: string

text \<open>
  The responses of the handlers. \<open>Ok\<close> is \<^verbatim>\<open>{success: true}\<close>; \<open>InheritedJson\<close> is
  \<^verbatim>\<open>res.json\<close> applied to a member of \<^verbatim>\<open>Object.prototype\<close>; \<open>ServerError\<close> is a 500,
  sent by a handler's \<^verbatim>\<open>catch\<close> or by Express when a handler or a middleware throws.
\<close>

datatype response =
    UploadOk string string string string
  | Ok
  | Deleted
  | RecordJson trackingRecord
  | AllJson trackingData
  | InheritedJson
  | ViewerPage string string bool
  | PdfFile string
  | Attachment string string
  | BadRequest string
  | NotFound string
  | ServerError string

fun status :: "response \<Rightarrow> nat" where
  "status (BadRequest _) = 400"
| "status (NotFound _) = 404"
| "status (ServerError _) = 500"
| "status _ = 200"

section \<open>Property lookup\<close>

text \<open>
  \<^verbatim>\<open>trackingData[trackingId]\<close> reads an own property of the parsed object or, when
  there is none, a member of \<^verbatim>\<open>Object.prototype\<close>. Every such member is a function
  or an object, hence truthy, and has no \<^verbatim>\<open>accessLogs\<close> and no \<^verbatim>\<open>fileName\<close>.
\<close>

definition objectPrototype :: "string list" where
  "objectPrototype =
     [''constructor'', ''__defineGetter__'', ''__defineSetter__'', ''hasOwnProperty'',
      ''__lookupGetter__'', ''__lookupSetter__'', ''isPrototypeOf'',
      ''propertyIsEnumerable'', ''toString'', ''valueOf'', ''__proto__'',
      ''toLocaleString'']"

datatype 'a property = Own 'a | Inherited | Undefined

definition getProp :: "(string \<times> 'a) list \<Rightarrow> string \<Rightarrow> 'a property" where
  "getProp obj k =
     (case map_of obj k of
        Some v \<Rightarrow> Own v
      | None \<Rightarrow> if k \<in> set objectPrototype then Inherited else Undefined)"

section \<open>Helper functions\<close>

definition getTrackingData :: "server \<Rightarrow> trackingData \<times> server" where
  "getTrackingData s =
     (case tracking_json s of
        None \<Rightarrow> ([], s\<lparr>tracking_json := Some []\<rparr>)
      | Some d \<Rightarrow> (d, s))"

definition saveTrackingData :: "trackingData \<Rightarrow> server \<Rightarrow> server" where
  "saveTrackingData d s = s\<lparr>tracking_json := Some d\<rparr>"

text \<open>\<^verbatim>\<open>a || b\<close> on strings that may be undefined: the empty string is falsy.\<close>

definition js_or :: "string option \<Rightarrow> string option \<Rightarrow> string option" where
  "js_or a b = (case a of Some x \<Rightarrow> if x = [] then b else Some x | None \<Rightarrow> b)"

text \<open>
  \<^verbatim>\<open>logAccess(trackingId, action, req, metadata)\<close>. The result is \<open>Inr\<close> of the
  boolean returned, or \<open>Inl\<close> of the message of the TypeError thrown by
  \<^verbatim>\<open>trackingData[trackingId].accessLogs.push\<close> when the property is inherited.
  The metadata is \<^verbatim>\<open>{}\<close> (\<open>None\<close>) or \<^verbatim>\<open>{ page }\<close> (\<open>Some page\<close>);
  \<open>accessLogOf\<close> is the object literal bound to \<^verbatim>\<open>accessLog\<close>, as it is saved.
\<close>

definition accessLogOf :: "string \<Rightarrow> request \<Rightarrow> jsnum option \<Rightarrow> accessLog" where
  "accessLogOf act req metadata =
     \<lparr>timestamp = now req, action = act,
      ip = js_or (req_ip req) (remoteAddress req),
      userAgent = user_agent req, page = map_option stringifyNumber metadata,
      timeSpent = None, pagesViewed = None, totalPages = None, completion = None\<rparr>"

definition logAccess ::
    "string \<Rightarrow> string \<Rightarrow> request \<Rightarrow> jsnum option \<Rightarrow> server \<Rightarrow> (string + bool) \<times> server" where
  "logAccess tId act req metadata s =
     (let (td, s1) = getTrackingData s in
      case getProp td tId of
        Undefined \<Rightarrow> (Inr False, s1)
      | Inherited \<Rightarrow> (Inl ''TypeError'', s1)
      | Own r \<Rightarrow>
          let r1 = r\<lparr>accessLogs := accessLogs r @ [accessLogOf act req metadata]\<rparr>;
              r2 = (if act = ''view'' then r1\<lparr>totalViews := totalViews r1 + 1\<rparr>
                    else if act = ''download'' then r1\<lparr>totalDownloads := totalDownloads r1 + 1\<rparr>
                    else r1)
          in (Inr True, saveTrackingData (AList.update tId r2 td) s1))"

text \<open>\<^verbatim>\<open>String.prototype.includes\<close> and \<^verbatim>\<open>split('-')[0]\<close>.\<close>

fun startsWith :: "string \<Rightarrow> string \<Rightarrow> bool" where
  "startsWith s [] = True"
| "startsWith [] (p # ps) = False"
| "startsWith (c # cs) (p # ps) = (c = p \<and> startsWith cs ps)"

fun js_includes :: "string \<Rightarrow> string \<Rightarrow> bool" where
  "js_includes [] p = (p = [])"
| "js_includes (c # cs) p = (startsWith (c # cs) p \<or> js_includes cs p)"

definition firstSegment :: "string \<Rightarrow> string" where
  "firstSegment s = takeWhile (\<lambda>c. c \<noteq> CHR ''-'') s"

section \<open>Route handlers\<close>

text \<open>
  \<^verbatim>\<open>POST /api/upload\<close>. \<open>file\<close> is the part in field \<^verbatim>\<open>pdf\<close>, if any; \<open>u1\<close> and \<open>u2\<close>
  are the results of the two \<^verbatim>\<open>uuidv4()\<close> calls (the stored file's name, the
  tracking identifier). multer runs first: its \<^verbatim>\<open>fileFilter\<close> passes an Error to
  Express for any other content type, before anything is stored and without the
  handler being run; for a PDF it stores the file under \<^verbatim>\<open>uploads/\<close>.
\<close>

definition upload ::
    "upload_file option \<Rightarrow> string \<Rightarrow> string \<Rightarrow> request \<Rightarrow> server \<Rightarrow> server \<times> response" where
  "upload file u1 u2 req s =
     (case file of
        None \<Rightarrow> (s, BadRequest ''No file uploaded'')
      | Some f \<Rightarrow>
          if mimetype f \<noteq> ''application/pdf''
          then (s, ServerError ''Only PDF files are allowed!'')
          else
            let fname = u1 @ ''-'' @ originalname f;
                s0 = s\<lparr>uploads := insert fname (uploads s)\<rparr>;
                tId = u2;
                sId = firstSegment tId
            in (case host req of
                 None \<Rightarrow> (s0, ServerError ''TypeError'')
               | Some h \<Rightarrow>
                   let protocol = (if js_includes h ''localhost'' then ''http'' else ''https'');
                       serverUrl = protocol @ ''://'' @ h;
                       (td, s1) = getTrackingData s0;
                       r = \<lparr>trackingId = tId, shortId = sId,
                            originalName = originalname f, fileName = fname,
                            uploadedAt = now req, accessLogs = [],
                            totalViews = 0, totalDownloads = 0, allowDownload = True,
                            viewerUrl = serverUrl @ ''/v/'' @ sId\<rparr>
                   in (saveTrackingData (AList.update tId r td) s1,
                       UploadOk tId sId (serverUrl @ ''/v/'' @ sId)
                         (serverUrl @ ''/api/stats/'' @ tId))))"

text \<open>\<^verbatim>\<open>GET /v/:shortId\<close>: the first entry whose \<^verbatim>\<open>shortId\<close> matches, then \<^verbatim>\<open>logAccess\<close>.\<close>

definition viewer :: "string \<Rightarrow> request \<Rightarrow> server \<Rightarrow> server \<times> response" where
  "viewer sId req s =
     (let (td, s1) = getTrackingData s in
      case find (\<lambda>(_, d). shortId d = sId) td of
        None \<Rightarrow> (s1, NotFound ''Document not found or has been removed.'')
      | Some (tId, pdfData) \<Rightarrow>
          (case logAccess tId ''view'' req None s1 of
             (Inl e, s2) \<Rightarrow> (s2, ServerError e)
           | (Inr _, s2) \<Rightarrow>
               (s2, ViewerPage tId (originalName pdfData) (allowDownload pdfData))))"

text \<open>
  \<^verbatim>\<open>GET /get-pdf/:trackingId\<close> and \<^verbatim>\<open>GET /download/:trackingId\<close>. For an inherited
  property \<^verbatim>\<open>fileName\<close> is undefined and \<^verbatim>\<open>path.join\<close> throws into the \<^verbatim>\<open>catch\<close>.
\<close>

definition getPdf :: "string \<Rightarrow> server \<Rightarrow> server \<times> response" where
  "getPdf tId s =
     (let (td, s1) = getTrackingData s in
      case getProp td tId of
        Undefined \<Rightarrow> (s1, NotFound ''PDF not found'')
      | Inherited \<Rightarrow> (s1, ServerError ''Error serving PDF'')
      | Own r \<Rightarrow>
          if fileName r \<notin> uploads s1 then (s1, NotFound ''PDF file not found'')
          else (s1, PdfFile (fileName r)))"

definition download :: "string \<Rightarrow> server \<Rightarrow> server \<times> response" where
  "download tId s =
     (let (td, s1) = getTrackingData s in
      case getProp td tId of
        Undefined \<Rightarrow> (s1, NotFound ''PDF not found'')
      | Inherited \<Rightarrow> (s1, ServerError ''Error downloading PDF'')
      | Own r \<Rightarrow>
          if fileName r \<notin> uploads s1 then (s1, NotFound ''PDF file not found'')
          else (s1, Attachment (fileName r) (originalName r)))"

text \<open>
  \<^verbatim>\<open>POST /api/log-download\<close> and \<^verbatim>\<open>POST /api/track-page\<close> ignore what \<^verbatim>\<open>logAccess\<close>
  returns; an exception it throws is answered by Express with a 500. A number of
  the request body is given by the value of its literal, which \<^verbatim>\<open>express.json()\<close>
  parses into a Number.
\<close>

definition logDownload :: "string \<Rightarrow> request \<Rightarrow> server \<Rightarrow> server \<times> response" where
  "logDownload tId req s =
     (case logAccess tId ''download'' req None s of
        (Inl e, s1) \<Rightarrow> (s1, ServerError e)
      | (Inr _, s1) \<Rightarrow> (s1, Ok))"

definition trackPage :: "string \<Rightarrow> rat \<Rightarrow> request \<Rightarrow> server \<Rightarrow> server \<times> response" where
  "trackPage tId pg req s =
     (case logAccess tId ''page_view'' req (Some (parseNumber pg)) s of
        (Inl e, s1) \<Rightarrow> (s1, ServerError e)
      | (Inr _, s1) \<Rightarrow> (s1, Ok))"

text \<open>
  \<^verbatim>\<open>POST /api/track-session\<close>. For an inherited property \<^verbatim>\<open>accessLogs\<close> is undefined
  and reading its \<^verbatim>\<open>length\<close> throws; the handler has no \<^verbatim>\<open>try\<close>.
\<close>

definition sessionCompletion :: "jsnum \<Rightarrow> jsnum \<Rightarrow> jsnum" where
  "sessionCompletion pv tp =
     (if gt0 tp then mathRound (jsmul (jsdiv pv tp) (Num 100)) else Num 0)"

definition trackSession ::
    "string \<Rightarrow> rat \<Rightarrow> rat \<Rightarrow> rat \<Rightarrow> server \<Rightarrow> server \<times> response" where
  "trackSession tId ts pv tp s =
     (let timeSpent' = parseNumber ts; pagesViewed' = parseNumber pv;
          totalPages' = parseNumber tp;
          (td, s1) = getTrackingData s in
      case getProp td tId of
        Undefined \<Rightarrow> (s1, Ok)
      | Inherited \<Rightarrow> (s1, ServerError ''TypeError'')
      | Own r \<Rightarrow>
          if length (accessLogs r) > 0 then
            let lastLog = accessLogs r ! (length (accessLogs r) - 1) in
            if action lastLog = ''view'' then
              let lastLog' = lastLog\<lparr>timeSpent := Some (stringifyNumber timeSpent'),
                     pagesViewed := Some (stringifyNumber pagesViewed'),
                     totalPages := Some (stringifyNumber totalPages'),
                     completion := Some (stringifyNumber
                       (sessionCompletion pagesViewed' totalPages'))\<rparr>;
                  r' = r\<lparr>accessLogs :=
                           (accessLogs r)[length (accessLogs r) - 1 := lastLog']\<rparr>
              in (saveTrackingData (AList.update tId r' td) s1, Ok)
            else (s1, Ok)
          else (s1, Ok))"

text \<open>\<^verbatim>\<open>GET /api/stats/:trackingId\<close> and \<^verbatim>\<open>GET /api/stats\<close>.\<close>

definition stats :: "string \<Rightarrow> server \<Rightarrow> server \<times> response" where
  "stats tId s =
     (let (td, s1) = getTrackingData s in
      case getProp td tId of
        Undefined \<Rightarrow> (s1, NotFound ''PDF not found'')
      | Inherited \<Rightarrow> (s1, InheritedJson)
      | Own r \<Rightarrow> (s1, RecordJson r))"

definition statsAll :: "server \<Rightarrow> server \<times> response" where
  "statsAll s = (let (td, s1) = getTrackingData s in (s1, AllJson td))"

text \<open>
  \<^verbatim>\<open>DELETE /api/delete/:trackingId\<close>: unlink the backing file if it exists, delete
  the property, save. For an inherited property \<^verbatim>\<open>path.join\<close> throws into the
  \<^verbatim>\<open>catch\<close>.
\<close>

definition deletePdf :: "string \<Rightarrow> server \<Rightarrow> server \<times> response" where
  "deletePdf tId s =
     (let (td, s1) = getTrackingData s in
      case getProp td tId of
        Undefined \<Rightarrow> (s1, NotFound ''PDF not found'')
      | Inherited \<Rightarrow> (s1, ServerError ''TypeError'')
      | Own r \<Rightarrow>
          let s2 = (if fileName r \<in> uploads s1
                    then s1\<lparr>uploads := uploads s1 - {fileName r}\<rparr> else s1)
          in (saveTrackingData (AList.delete tId td) s2, Deleted))"

section \<open>The server as a transition system\<close>

datatype route =
    PostUpload "upload_file option" string string
  | GetViewer string
  | GetPdf string
  | GetDownload string
  | PostLogDownload string
  | PostTrackPage string rat
  | PostTrackSession string rat rat rat
  | GetStats string
  | GetStatsAll
  | DeleteById string

fun handle :: "route \<Rightarrow> request \<Rightarrow> server \<Rightarrow> server \<times> response" where
  "handle (PostUpload file u1 u2) req s = upload file u1 u2 req s"
| "handle (GetViewer sId) req s = viewer sId req s"
| "handle (GetPdf tId) req s = getPdf tId s"
| "handle (GetDownload tId) req s = download tId s"
| "handle (PostLogDownload tId) req s = logDownload tId req s"
| "handle (PostTrackPage tId pg) req s = trackPage tId pg req s"
| "handle (PostTrackSession tId ts pv tp) req s = trackSession tId ts pv tp s"
| "handle (GetStats tId) req s = stats tId s"
| "handle GetStatsAll req s = statsAll s"
| "handle (DeleteById tId) req s = deletePdf tId s"

fun run :: "(route \<times> request) list \<Rightarrow> server \<Rightarrow> server" where
  "run [] s = s"
| "run ((rt, req) # rs) s = run rs (fst (handle rt req s))"

text \<open>The server before its first request: no data file, no uploaded file.\<close>

definition initial :: server where
  "initial = \<lparr>tracking_json = None, uploads = {}\<rparr>"

text \<open>The record collection a handler would read in a state.\<close>

definition records :: "server \<Rightarrow> trackingData" where
  "records s = fst (getTrackingData s)"

section \<open>Predicates used in the statements\<close>

text \<open>A record's counters agree with its log.\<close>

definition counters_ok :: "trackingRecord \<Rightarrow> bool" where
  "counters_ok r \<longleftrightarrow>
     totalViews r = length (filter (\<lambda>e. action e = ''view'') (accessLogs r)) \<and>
     totalDownloads r = length (filter (\<lambda>e. action e = ''download'') (accessLogs r))"

definition all_ok :: "server \<Rightarrow> bool" where
  "all_ok s \<longleftrightarrow> (\<forall>(k, r) \<in> set (records s). counters_ok r)"

text \<open>The last log entry after the four assignments of the track-session handler.\<close>

definition withSummary :: "rat \<Rightarrow> rat \<Rightarrow> rat \<Rightarrow> accessLog \<Rightarrow> accessLog" where
  "withSummary ts pv tp e =
     e\<lparr>timeSpent := Some (stringifyNumber (parseNumber ts)),
       pagesViewed := Some (stringifyNumber (parseNumber pv)),
       totalPages := Some (stringifyNumber (parseNumber tp)),
       completion := Some (stringifyNumber
         (sessionCompletion (parseNumber pv) (parseNumber tp)))\<rparr>"

text \<open>
  A request does not reuse an identifier if it is not an upload whose \<^verbatim>\<open>uuidv4()\<close>
  result is that identifier; it does not reuse a short identifier if it is not an
  upload whose \<^verbatim>\<open>uuidv4()\<close> result begins with it.
\<close>

fun fresh_id :: "string \<Rightarrow> route \<Rightarrow> bool" where
  "fresh_id tId (PostUpload file u1 u2) = (u2 \<noteq> tId)"
| "fresh_id tId rt = True"

fun fresh_short :: "string \<Rightarrow> route \<Rightarrow> bool" where
  "fresh_short sId (PostUpload file u1 u2) = (firstSegment u2 \<noteq> sId)"
| "fresh_short sId rt = True"

text \<open>No record with the short identifier.\<close>

definition absent_short :: "string \<Rightarrow> server \<Rightarrow> bool" where
  "absent_short sId s \<longleftrightarrow> (\<forall>(k, d) \<in> set (records s). shortId d \<noteq> sId)"

section \<open>Example inputs\<close>

definition ex_req :: request where
  "ex_req = \<lparr>now = ''2024-05-01T10:00:00.000Z'', req_ip = Some ''203.0.113.7'',
             remoteAddress = None, user_agent = Some ''Mozilla/5.0'',
             host = Some ''tracker.example.com''\<rparr>"

definition ex_pdf :: upload_file where
  "ex_pdf = \<lparr>mimetype = ''application/pdf'', originalname = ''report.pdf''\<rparr>"

definition ex_png :: upload_file where
  "ex_png = \<lparr>mimetype = ''image/png'', originalname = ''photo.png''\<rparr>"

text \<open>
  Results of \<^verbatim>\<open>uuidv4()\<close>: three tracking identifiers, the first two with the same
  first segment, and two used in file names.
\<close>

definition id_a :: string where "id_a = ''3f2a9c1e-58b1-4c6d-9a3e-0d2f6b7c8e91''"
definition id_b :: string where "id_b = ''3f2a9c1e-7d40-4e2a-b1c5-6a9e8f0d1b23''"
definition id_c :: string where "id_c = ''9b1d4e2f-0a3c-4f5e-8d7b-2c1a0f9e8d7c''"
definition id_f :: string where "id_f = ''c0ffee00-1111-4222-8333-444455556666''"
definition id_g :: string where "id_g = ''decade00-7777-4888-9999-aaaabbbbcccc''"

text \<open>The record that uploading \<open>ex_pdf\<close> under \<open>id_a\<close> creates, with a given log and counters.\<close>

definition ex_record :: "accessLog list \<Rightarrow> nat \<Rightarrow> nat \<Rightarrow> trackingRecord" where
  "ex_record logs v d =
     \<lparr>trackingId = id_a, shortId = ''3f2a9c1e'', originalName = ''report.pdf'',
      fileName = id_f @ ''-report.pdf'', uploadedAt = now ex_req, accessLogs = logs,
      totalViews = v, totalDownloads = d, allowDownload = True,
      viewerUrl = ''https://tracker.example.com/v/3f2a9c1e''\<rparr>"

text \<open>The record that uploading \<open>ex_pdf\<close> creates under another identifier.\<close>

definition ex_other :: "string \<Rightarrow> string \<Rightarrow> string \<Rightarrow> trackingRecord" where
  "ex_other tId sId u =
     \<lparr>trackingId = tId, shortId = sId, originalName = ''report.pdf'',
      fileName = u @ ''-report.pdf'', uploadedAt = now ex_req, accessLogs = [],
      totalViews = 0, totalDownloads = 0, allowDownload = True,
      viewerUrl = ''https://tracker.example.com/v/'' @ sId\<rparr>"

text \<open>
  States reached from the initial one: one upload; then one visit; then a page
  report and a second visit; one visit and a page report; two uploads sharing a
  short identifier; two uploads with different short identifiers.
\<close>

definition ex_uploaded :: server where
  "ex_uploaded = run [(PostUpload (Some ex_pdf) id_f id_a, ex_req)] initial"

definition ex_viewed :: server where
  "ex_viewed = run [(GetViewer ''3f2a9c1e'', ex_req)] ex_uploaded"

definition ex_revisited :: server where
  "ex_revisited =
     run [(PostTrackPage id_a 1, ex_req), (GetViewer ''3f2a9c1e'', ex_req)] ex_viewed"

definition ex_paged :: server where
  "ex_paged = run [(PostTrackPage id_a 1, ex_req)] ex_viewed"

definition ex_two :: server where
  "ex_two = run [(PostUpload (Some ex_pdf) id_g id_b, ex_req)] ex_uploaded"

definition ex_pair :: server where
  "ex_pair = run [(PostUpload (Some ex_pdf) id_g id_c, ex_req)] ex_uploaded"

text \<open>Requests arriving after a deletion of \<open>id_a\<close>, and a whole session from the start.\<close>

definition ex_later :: "(route \<times> request) list" where
  "ex_later = [(PostTrackPage id_a 1, ex_req), (PostUpload (Some ex_pdf) id_f id_c, ex_req),
               (GetViewer ''9b1d4e2f'', ex_req)]"

definition ex_session :: "(route \<times> request) list" where
  "ex_session = [(PostUpload (Some ex_pdf) id_f id_a, ex_req), (GetViewer ''3f2a9c1e'', ex_req),
                 (PostTrackPage id_a 1, ex_req), (PostLogDownload id_a, ex_req),
                 (GetViewer ''3f2a9c1e'', ex_req), (PostTrackSession id_a 42 1 4, ex_req)]"

section \<open>Facts about the helpers\<close>

text \<open>Evaluation of the number model, and the sign of a parsed literal.\<close>

lemma floor_numeral_div_rat [simp]:
  "\<lfloor>numeral a / numeral b :: rat\<rfloor> = numeral a div numeral b"
  by (metis floor_divide_of_int_eq of_int_numeral)

lemma ceiling_numeral_div_rat [simp]:
  "\<lceil>numeral a / numeral b :: rat\<rceil> = - ((- numeral a) div numeral b)"
  by (metis ceiling_def floor_divide_of_int_eq of_int_minus of_int_numeral minus_divide_left)

lemma floor_neg_numeral_div_rat [simp]:
  "\<lfloor>- (numeral a / numeral b) :: rat\<rfloor> = (- numeral a) div numeral b"
  by (metis floor_divide_of_int_eq of_int_minus of_int_numeral minus_divide_left)

lemmas number_defs = fl_def roundMag_def roundHalfEven_def floorlog2_def pow2_def
  parseNumber_def jsdiv_def jsmul_def signedZero_def signedInf_def sessionCompletion_def
  Let_def compute_bitlen

lemma pow2_pos: "pow2 e > 0"
  by (simp add: pow2_def)

lemma roundHalfEven_nonneg: "m \<ge> 0 \<Longrightarrow> roundHalfEven m \<ge> 0"
  by (auto simp add: roundHalfEven_def Let_def intro: add_nonneg_nonneg)

lemma roundMag_nonneg: "a \<ge> 0 \<Longrightarrow> roundMag a \<ge> 0"
  using pow2_pos roundHalfEven_nonneg
  by (simp add: roundMag_def Let_def less_imp_le)

lemma parseNumber_gt0: "gt0 (parseNumber x) \<Longrightarrow> x > 0"
proof (rule ccontr)
  assume g: "gt0 (parseNumber x)" and "\<not> x > 0"
  then have "x \<le> 0" by simp
  moreover have "roundMag \<bar>x\<bar> \<ge> 0" by (rule roundMag_nonneg) simp
  ultimately show False using g
    by (auto simp add: parseNumber_def fl_def Let_def split: if_splits)
qed

lemma parse_values:
  "parseNumber 0 = Num 0" "parseNumber 1 = Num 1" "parseNumber 3 = Num 3"
  "parseNumber 4 = Num 4" "parseNumber 23 = Num 23" "parseNumber 40 = Num 40"
  "parseNumber 42 = Num 42" "parseNumber (- 1) = Num (- 1)"
  by (simp_all add: number_defs)

lemma completion_values:
  "sessionCompletion (Num 1) (Num 4) = Num 25"
  "sessionCompletion (Num 23) (Num 40) = Num 57"
  "sessionCompletion (Num 1) (Num 0) = Num 0"
  "sessionCompletion (Num 1) (Num (- 1)) = Num 0"
  "mathRound (jsmul (jsdiv (Num 1) (Num (- 1))) (Num 100)) = Num (- 100)"
  by (simp_all add: number_defs)

lemma fl_0 [simp]: "fl 0 = Num 0"
  by (simp add: fl_def)

lemma jsdiv_Num_pos: "t > 0 \<Longrightarrow> jsdiv (Num p) (Num t) = fl (p / t)"
  by (cases "p < 0") (auto simp add: jsdiv_def signedZero_def Let_def abs_if)

lemma jsmul_Num_100: "jsmul (Num q) (Num 100) = fl (q * 100)"
  by (cases "q < 0") (auto simp add: jsmul_def signedZero_def Let_def abs_if)

lemma stringify_mathRound_Num: "stringifyNumber (mathRound (Num y)) = JNumber (of_int (round y))"
  by (simp add: round_def)

lemma fl_examples:
  "fl (23 / 40) = Num (5179139571476070 / 9007199254740992)"
  "fl (5179139571476070 / 9007199254740992 * 100) = Num (8092405580431359 / 140737488355328)"
  "round (8092405580431359 / 140737488355328 :: rat) = 57"
  "round ((23 :: rat) / 40 * 100) = 58"
  by (simp_all add: number_defs round_def)

text \<open>
  The rounding is to a nearest multiple of the unit in the last place: the exponent
  is the binary exponent of the value, and the result is within half a unit.
\<close>

lemma floorlog2_bounds:
  assumes "a > 0"
  shows "pow2 (floorlog2 a) \<le> a \<and> a < pow2 (floorlog2 a + 1)"
proof (cases "a \<ge> 1")
  case True
  define n where "n = \<lfloor>a\<rfloor>"
  have n: "n > 0" "of_int n \<le> a" "a < of_int n + 1"
    using True unfolding n_def by linarith+
  from bitlen_bounds [OF n(1)] have b: "2 ^ nat (bitlen n - 1) \<le> n" "n < 2 ^ nat (bitlen n)"
    by simp_all
  have ge1: "bitlen n \<ge> 1" using n(1) by (auto simp: bitlen_alt_def)
  have "(2::rat) ^ nat (bitlen n - 1) \<le> of_int n"
    using b(1) by (metis of_int_le_iff of_int_numeral of_int_power)
  with n(2) have A: "(2::rat) ^ nat (bitlen n - 1) \<le> a" by linarith
  have "n + 1 \<le> 2 ^ nat (bitlen n)" using b(2) by simp
  then have "of_int (n + 1) \<le> (of_int (2 ^ nat (bitlen n)) :: rat)"
    by (simp only: of_int_le_iff)
  then have "of_int n + 1 \<le> (2::rat) ^ nat (bitlen n)" by simp
  with n(3) have B: "a < (2::rat) ^ nat (bitlen n)" by linarith
  have e: "floorlog2 a = bitlen n - 1" using True by (simp add: floorlog2_def n_def)
  show ?thesis unfolding e using A B ge1 by (simp add: pow2_def)
next
  case False
  define c where "c = \<lceil>1 / a\<rceil>"
  define k where "k = bitlen (c - 1)"
  have b1: "1 / a > 1" using False assms by simp
  have c: "of_int c \<ge> 1 / a" "of_int c - 1 < 1 / a" "c \<ge> 2"
    using b1 unfolding c_def by linarith+
  have pos: "c - 1 > 0" using c(3) by simp
  from bitlen_bounds [OF pos] have b: "2 ^ nat (k - 1) \<le> c - 1" "c - 1 < 2 ^ nat k"
    by (simp_all add: k_def)
  have k1: "k \<ge> 1" using pos by (auto simp: k_def bitlen_alt_def)
  have up: "1 / a \<le> (2::rat) ^ nat k"
  proof -
    have "c \<le> 2 ^ nat k" using b(2) by simp
    then have "of_int c \<le> (of_int (2 ^ nat k) :: rat)" by (simp only: of_int_le_iff)
    then have "of_int c \<le> (2::rat) ^ nat k" by simp
    with c(1) show ?thesis by linarith
  qed
  have lo: "(2::rat) ^ nat (k - 1) < 1 / a"
  proof -
    have "of_int (2 ^ nat (k - 1)) \<le> (of_int (c - 1) :: rat)"
      using b(1) by (simp only: of_int_le_iff)
    then have "(2::rat) ^ nat (k - 1) \<le> of_int c - 1" by simp
    with c(2) show ?thesis by linarith
  qed
  have "1 / (2::rat) ^ nat k \<le> a"
    using up assms by (simp add: field_simps)
  moreover have "a < 1 / (2::rat) ^ nat (k - 1)"
    using lo assms by (simp add: field_simps)
  moreover have "pow2 (- k) = 1 / 2 ^ nat k" using k1 by (simp add: pow2_def)
  moreover have "pow2 (- k + 1) = 1 / 2 ^ nat (k - 1)"
  proof (cases "k = 1")
    case True then show ?thesis by (simp add: pow2_def)
  next
    case False
    with k1 have "- k + 1 < 0" by simp
    moreover have "nat (- (- k + 1)) = nat (k - 1)" by simp
    ultimately show ?thesis by (simp add: pow2_def)
  qed
  ultimately show ?thesis
    using False by (simp add: floorlog2_def c_def [symmetric] k_def [symmetric])
qed

lemma roundHalfEven_error: "\<bar>of_int (roundHalfEven m) - m\<bar> \<le> 1 / 2"
proof -
  define f where "f = \<lfloor>m\<rfloor>"
  define d where "d = m - of_int f"
  have d: "0 \<le> d" "d < 1" unfolding d_def f_def by linarith+
  have m: "m = of_int f + d" by (simp add: d_def)
  have r: "roundHalfEven m =
      (if d < 1 / 2 then f else if d > 1 / 2 then f + 1 else if even f then f else f + 1)"
    by (simp add: roundHalfEven_def Let_def f_def d_def)
  have "(roundHalfEven m = f \<and> d \<le> 1 / 2) \<or> (roundHalfEven m = f + 1 \<and> d \<ge> 1 / 2)"
    by (auto simp add: r)
  then show ?thesis using d by (auto simp add: d_def abs_if)
qed

lemma roundMag_error:
  "\<bar>roundMag a - a\<bar> \<le> pow2 (max (floorlog2 a) (- 1022) - 52) / 2"
proof -
  define u where "u = pow2 (max (floorlog2 a) (- 1022) - 52)"
  have u: "u > 0" by (simp add: u_def pow2_pos)
  have "roundMag a - a = (of_int (roundHalfEven (a / u)) - a / u) * u"
    using u by (simp add: roundMag_def Let_def u_def [symmetric] field_simps)
  then have "\<bar>roundMag a - a\<bar> = \<bar>of_int (roundHalfEven (a / u)) - a / u\<bar> * u"
    using u by (simp add: abs_mult)
  also have "\<dots> \<le> 1 / 2 * u"
    using roundHalfEven_error [of "a / u"] u by (intro mult_right_mono) simp_all
  finally show ?thesis by (simp add: u_def)
qed

text \<open>
  A literal of at least \<^verbatim>\<open>2^1024\<close> parses to \<^verbatim>\<open>Infinity\<close>; a completion computed from
  such a \<^verbatim>\<open>pagesViewed\<close> is saved as \<^verbatim>\<open>null\<close>.
\<close>

lemma pow2_powi: "pow2 e = 2 powi e"
  by (simp add: pow2_def power_int_def inverse_eq_divide power_one_over)

lemma pow2_add: "pow2 (a + b) = pow2 a * pow2 b"
  by (simp add: pow2_powi power_int_add)

lemma pow2_mono: "a \<le> b \<Longrightarrow> pow2 a \<le> pow2 b"
  by (simp add: pow2_powi power_int_increasing)

lemma roundHalfEven_ge_floor: "roundHalfEven m \<ge> \<lfloor>m\<rfloor>"
  by (simp add: roundHalfEven_def Let_def)

lemma parseNumber_overflow:
  assumes "x \<ge> pow2 1024"
  shows "parseNumber x = PosInf"
proof -
  have x: "x > 0" using assms pow2_pos [of 1024] by linarith
  define e where "e = floorlog2 x"
  from floorlog2_bounds [OF x] have b: "pow2 e \<le> x" "x < pow2 (e + 1)"
    by (simp_all add: e_def)
  have "pow2 1024 < pow2 (e + 1)" using assms b(2) by linarith
  then have "\<not> e + 1 \<le> 1024" using pow2_mono [of "e + 1" 1024] by auto
  then have e: "e \<ge> 1024" by simp
  define u where "u = pow2 (e - 52)"
  have u: "u > 0" by (simp add: u_def pow2_pos)
  have pe: "pow2 e = 2 ^ 52 * u"
    using pow2_add [of 52 "e - 52"] by (simp add: u_def pow2_def)
  have "2 ^ 52 \<le> x / u" using b(1) u by (simp add: pe field_simps)
  then have "(2::int) ^ 52 \<le> \<lfloor>x / u\<rfloor>"
    by (metis le_floor_iff of_int_numeral of_int_power)
  with roundHalfEven_ge_floor [of "x / u"] have "(2::int) ^ 52 \<le> roundHalfEven (x / u)"
    by linarith
  then have "of_int ((2::int) ^ 52) \<le> (of_int (roundHalfEven (x / u)) :: rat)"
    by (simp only: of_int_le_iff)
  then have "2 ^ 52 * u \<le> of_int (roundHalfEven (x / u)) * u"
    using u by (intro mult_right_mono) simp_all
  moreover have "roundMag \<bar>x\<bar> = of_int (roundHalfEven (x / u)) * u"
    using x e by (simp add: roundMag_def Let_def u_def e_def max_def)
  ultimately have "roundMag \<bar>x\<bar> \<ge> pow2 e" by (simp add: pe)
  moreover have "pow2 1024 \<le> pow2 e" using e by (rule pow2_mono)
  ultimately have "roundMag \<bar>x\<bar> \<ge> pow2 1024" by linarith
  then show ?thesis using x by (simp add: parseNumber_def fl_def Let_def)
qed

lemma completion_overflow:
  assumes "pv \<ge> pow2 1024" "parseNumber tp = Num t" "t > 0"
  shows "stringifyNumber (sessionCompletion (parseNumber pv) (parseNumber tp)) = JNull"
  using assms
  by (simp add: parseNumber_overflow sessionCompletion_def jsdiv_def jsmul_def signedInf_def Let_def)

lemma completion_overflow_example:
  "stringifyNumber (sessionCompletion (parseNumber (pow2 1024)) (parseNumber 4)) = JNull"
  by (rule completion_overflow [of _ _ 4]) (simp_all add: parse_values)

text \<open>The data file and the handlers.\<close>

lemma getTrackingData_eq:
  "getTrackingData s = (records s, s\<lparr>tracking_json := Some (records s)\<rparr>)"
  by (cases s) (simp add: getTrackingData_def records_def split: option.splits)

lemma records_update [simp]: "records (s\<lparr>tracking_json := Some d\<rparr>) = d"
  by (simp add: records_def getTrackingData_def)

lemma records_uploads_update [simp]: "records (s\<lparr>uploads := u\<rparr>) = records s"
  by (simp add: records_def getTrackingData_def split: option.splits)

lemma records_save [simp]: "records (saveTrackingData d s) = d"
  by (simp add: saveTrackingData_def)

lemma uploads_save [simp]: "uploads (saveTrackingData d s) = uploads s"
  by (simp add: saveTrackingData_def)

lemma getProp_Own_iff: "getProp obj k = Own v \<longleftrightarrow> map_of obj k = Some v"
  by (simp add: getProp_def split: option.splits)

lemma getProp_Undefined_iff:
  "getProp obj k = Undefined \<longleftrightarrow> map_of obj k = None \<and> k \<notin> set objectPrototype"
  by (simp add: getProp_def split: option.splits)

lemma list_update_last: "xs \<noteq> [] \<Longrightarrow> xs[length xs - Suc 0 := v] = butlast xs @ [v]"
  by (induction xs) (auto split: nat.splits)

lemma saveTrackingData_touch [simp]:
  "saveTrackingData d (s\<lparr>tracking_json := x\<rparr>) = s\<lparr>tracking_json := Some d\<rparr>"
  by (simp add: saveTrackingData_def)

lemma trackSession_view:
  assumes "map_of (records s) tId = Some r" "accessLogs r \<noteq> []"
    "action (last (accessLogs r)) = ''view''"
  shows "trackSession tId ts pv tp s =
    (s\<lparr>tracking_json := Some (AList.update tId
        (r\<lparr>accessLogs := butlast (accessLogs r) @
            [withSummary ts pv tp (last (accessLogs r))]\<rparr>)
        (records s))\<rparr>, Ok)"
  using assms
  by (simp add: trackSession_def getTrackingData_eq getProp_def list_update_last last_conv_nth
      withSummary_def Let_def)

lemma trackSession_other:
  assumes "getProp (records s) tId \<noteq> Inherited"
    "\<forall>r. map_of (records s) tId = Some r \<longrightarrow>
       accessLogs r = [] \<or> action (last (accessLogs r)) \<noteq> ''view''"
  shows "trackSession tId ts pv tp s = (s\<lparr>tracking_json := Some (records s)\<rparr>, Ok)"
  using assms
  by (auto simp add: trackSession_def getTrackingData_eq getProp_def last_conv_nth Let_def
      split: option.splits if_splits)

lemma trackSession_inherited:
  assumes "getProp (records s) tId = Inherited"
  shows "trackSession tId ts pv tp s =
    (s\<lparr>tracking_json := Some (records s)\<rparr>, ServerError ''TypeError'')"
  using assms by (simp add: trackSession_def getTrackingData_eq Let_def)

lemma action_withSummary [simp]: "action (withSummary ts pv tp e) = action e"
  by (simp add: withSummary_def)

lemma trackSession_cases:
  obtains (mutated) r0 where "map_of (records s) tId = Some r0" "accessLogs r0 \<noteq> []"
      "action (last (accessLogs r0)) = ''view''"
      "records (fst (trackSession tId ts pv tp s)) = AList.update tId
        (r0\<lparr>accessLogs := butlast (accessLogs r0) @
            [withSummary ts pv tp (last (accessLogs r0))]\<rparr>)
        (records s)"
  | (same) "records (fst (trackSession tId ts pv tp s)) = records s"
proof (cases "getProp (records s) tId = Inherited")
  case True
  then show ?thesis using same by (simp add: trackSession_inherited)
next
  case notInh: False
  show ?thesis
  proof (cases "\<exists>r0. map_of (records s) tId = Some r0 \<and> accessLogs r0 \<noteq> []
                  \<and> action (last (accessLogs r0)) = ''view''")
    case True
    then obtain r0 where r0: "map_of (records s) tId = Some r0" "accessLogs r0 \<noteq> []"
      "action (last (accessLogs r0)) = ''view''" by blast
    then show ?thesis using mutated [of r0] by (simp add: trackSession_view)
  next
    case False
    with notInh show ?thesis using same by (simp add: trackSession_other)
  qed
qed

lemma logAccess_own:
  assumes "map_of (records s) tId = Some r"
  shows "logAccess tId act req md s =
    (Inr True, s\<lparr>tracking_json := Some (AList.update tId
       (if act = ''view''
        then r\<lparr>accessLogs := accessLogs r @ [accessLogOf act req md],
               totalViews := totalViews r + 1\<rparr>
        else if act = ''download''
        then r\<lparr>accessLogs := accessLogs r @ [accessLogOf act req md],
               totalDownloads := totalDownloads r + 1\<rparr>
        else r\<lparr>accessLogs := accessLogs r @ [accessLogOf act req md]\<rparr>)
       (records s))\<rparr>)"
  using assms by (simp add: logAccess_def getTrackingData_eq getProp_def)

lemma logAccess_undefined:
  assumes "map_of (records s) tId = None" "tId \<notin> set objectPrototype"
  shows "logAccess tId act req md s = (Inr False, s\<lparr>tracking_json := Some (records s)\<rparr>)"
  using assms by (simp add: logAccess_def getTrackingData_eq getProp_def)

lemma logAccess_inherited:
  assumes "map_of (records s) tId = None" "tId \<in> set objectPrototype"
  shows "logAccess tId act req md s =
    (Inl ''TypeError'', s\<lparr>tracking_json := Some (records s)\<rparr>)"
  using assms by (simp add: logAccess_def getTrackingData_eq getProp_def)

lemma action_accessLogOf [simp]: "action (accessLogOf act req md) = act"
  by (simp add: accessLogOf_def)

lemma page_accessLogOf [simp]:
  "page (accessLogOf act req md) = map_option stringifyNumber md"
  by (simp add: accessLogOf_def)

lemma find_distinct_map_of:
  assumes "distinct (map fst al)" "find P al = Some (k, v)"
  shows "map_of al k = Some v"
proof -
  from assms(2) have "(k, v) \<in> set al"
    by (auto simp: find_Some_iff)
  with assms(1) show ?thesis by simp
qed

lemma set_update_subset: "set (AList.update k v al) \<subseteq> insert (k, v) (set al)"
  by (induction al) auto

lemma set_delete_subset: "set (AList.delete k al) \<subseteq> set al"
  by (auto simp: AList.delete_eq)

lemma counters_ok_logged:
  assumes "counters_ok r"
  shows "counters_ok (if act = ''view''
        then r\<lparr>accessLogs := accessLogs r @ [accessLogOf act req md],
               totalViews := totalViews r + 1\<rparr>
        else if act = ''download''
        then r\<lparr>accessLogs := accessLogs r @ [accessLogOf act req md],
               totalDownloads := totalDownloads r + 1\<rparr>
        else r\<lparr>accessLogs := accessLogs r @ [accessLogOf act req md]\<rparr>)"
  using assms by (simp add: counters_ok_def)

lemma filter_replace_last:
  assumes "xs \<noteq> []" "P x = P (last xs)"
  shows "length (filter P (butlast xs @ [x])) = length (filter P xs)"
proof -
  have "length (filter P xs) = length (filter P (butlast xs @ [last xs]))"
    using assms(1) by simp
  then show ?thesis using assms(2) by simp
qed

lemma counters_ok_session:
  assumes "counters_ok r" "accessLogs r \<noteq> []" "action x = action (last (accessLogs r))"
  shows "counters_ok (r\<lparr>accessLogs := butlast (accessLogs r) @ [x]\<rparr>)"
proof -
  have "length (filter (\<lambda>e. action e = w) (butlast (accessLogs r) @ [x])) =
        length (filter (\<lambda>e. action e = w) (accessLogs r))" for w
    using assms(2,3) by (intro filter_replace_last) simp_all
  then show ?thesis using assms(1) unfolding counters_ok_def
    by (simp del: filter_append filter.simps)
qed

lemma all_ok_update:
  assumes "\<forall>(k, r) \<in> set al. counters_ok r" "counters_ok v"
  shows "\<forall>(k, r) \<in> set (AList.update k' v al). counters_ok r"
  using assms set_update_subset [of k' v al] by auto

lemma logAccess_all_ok:
  assumes "all_ok s"
  shows "all_ok (snd (logAccess tId act req md s))"
proof (cases "map_of (records s) tId")
  case None
  then show ?thesis using assms
    by (cases "tId \<in> set objectPrototype")
       (simp_all add: logAccess_undefined logAccess_inherited all_ok_def)
next
  case (Some r)
  then have "(tId, r) \<in> set (records s)" by (rule map_of_SomeD)
  with assms have "counters_ok r" by (auto simp: all_ok_def)
  then have "counters_ok v" if "v = (if act = ''view''
        then r\<lparr>accessLogs := accessLogs r @ [accessLogOf act req md],
               totalViews := totalViews r + 1\<rparr>
        else if act = ''download''
        then r\<lparr>accessLogs := accessLogs r @ [accessLogOf act req md],
               totalDownloads := totalDownloads r + 1\<rparr>
        else r\<lparr>accessLogs := accessLogs r @ [accessLogOf act req md]\<rparr>)" for v
    unfolding that by (rule counters_ok_logged)
  moreover have "\<forall>(k, r) \<in> set (records s). counters_ok r"
    using assms by (simp add: all_ok_def)
  ultimately show ?thesis
    unfolding logAccess_own [OF Some] all_ok_def snd_conv records_update
    by (intro all_ok_update) simp_all
qed

lemma trackSession_all_ok:
  assumes "all_ok s"
  shows "all_ok (fst (trackSession tId ts pv tp s))"
proof (cases rule: trackSession_cases [of s tId ts pv tp])
  case same
  with assms show ?thesis by (simp add: all_ok_def)
next
  case (mutated r0)
  from mutated(1) have "(tId, r0) \<in> set (records s)" by (rule map_of_SomeD)
  with assms have "counters_ok r0" by (auto simp: all_ok_def)
  then have "counters_ok (r0\<lparr>accessLogs := butlast (accessLogs r0) @
            [withSummary ts pv tp (last (accessLogs r0))]\<rparr>)"
    using mutated(2) by (rule counters_ok_session) simp
  moreover have "\<forall>(k, r) \<in> set (records s). counters_ok r"
    using assms by (simp add: all_ok_def)
  ultimately show ?thesis
    unfolding mutated(4) all_ok_def by (intro all_ok_update)
qed

lemma upload_all_ok:
  assumes "all_ok s"
  shows "all_ok (fst (upload file u1 u2 req s))"
proof -
  have new: "counters_ok \<lparr>trackingId = a, shortId = b, originalName = c, fileName = d,
      uploadedAt = e, accessLogs = [], totalViews = 0, totalDownloads = 0,
      allowDownload = True, viewerUrl = f\<rparr>" for a b c d e f
    by (simp add: counters_ok_def)
  have old: "\<forall>(k, r) \<in> set (records s). counters_ok r"
    using assms by (simp add: all_ok_def)
  note upd = all_ok_update [OF old new]
  show ?thesis using old
    by (simp add: upload_def getTrackingData_eq all_ok_def Let_def upd split: option.splits)
qed

lemma viewer_state:
  "fst (viewer sId req s) =
     (case find (\<lambda>(_, d). shortId d = sId) (records s) of
        None \<Rightarrow> s\<lparr>tracking_json := Some (records s)\<rparr>
      | Some (tId, d) \<Rightarrow>
          snd (logAccess tId ''view'' req None (s\<lparr>tracking_json := Some (records s)\<rparr>)))"
  by (simp add: viewer_def getTrackingData_eq split: option.splits prod.splits sum.splits)

lemma handle_all_ok:
  assumes "all_ok s"
  shows "all_ok (fst (handle rt req s))"
proof (cases rt)
  case (PostUpload f u1 u2)
  then show ?thesis using upload_all_ok [OF assms] by simp
next
  case (GetViewer sId)
  have "all_ok (s\<lparr>tracking_json := Some (records s)\<rparr>)" using assms by (simp add: all_ok_def)
  from logAccess_all_ok [OF this] this GetViewer show ?thesis
    by (simp add: viewer_state split: option.splits prod.splits)
next
  case (PostLogDownload tId)
  with logAccess_all_ok [OF assms, of tId "''download''" req None] show ?thesis
    by (auto simp add: logDownload_def split: prod.splits sum.splits)
next
  case (PostTrackPage tId pg)
  with logAccess_all_ok [OF assms, of tId "''page_view''" req "Some (parseNumber pg)"] show ?thesis
    by (auto simp add: trackPage_def split: prod.splits sum.splits)
next
  case (PostTrackSession tId ts pv tp)
  then show ?thesis using trackSession_all_ok [OF assms] by simp
next
  case (DeleteById tId)
  then show ?thesis using assms set_delete_subset [of tId "records s"]
    by (auto simp add: deletePdf_def getTrackingData_eq all_ok_def split: property.splits)
qed (use assms in \<open>auto simp add: getPdf_def download_def stats_def statsAll_def
      getTrackingData_eq all_ok_def split: property.splits\<close>)

lemma run_all_ok: "all_ok s \<Longrightarrow> all_ok (run rs s)"
  by (induction rs arbitrary: s) (auto simp: handle_all_ok)

text \<open>Only an upload adds a key, and only an upload brings in a short identifier.\<close>

lemma logAccess_lookup_None:
  assumes "map_of (records s) tId = None"
  shows "map_of (records (snd (logAccess k act req md s))) tId = None"
proof (cases "map_of (records s) k")
  case None
  then show ?thesis using assms
    by (cases "k \<in> set objectPrototype")
       (simp_all add: logAccess_undefined logAccess_inherited)
next
  case (Some r)
  with assms have "k \<noteq> tId" by auto
  with assms show ?thesis by (simp add: logAccess_own [OF Some] update_conv')
qed

lemma trackSession_lookup_None:
  assumes "map_of (records s) tId = None"
  shows "map_of (records (fst (trackSession k ts pv tp s))) tId = None"
proof (cases rule: trackSession_cases [of s k ts pv tp])
  case same
  with assms show ?thesis by simp
next
  case (mutated r0)
  with assms have "k \<noteq> tId" by auto
  with assms mutated(4) show ?thesis by (simp add: update_conv')
qed

lemma handle_lookup_None:
  assumes "map_of (records s) tId = None" "fresh_id tId rt"
  shows "map_of (records (fst (handle rt req s))) tId = None"
proof (cases rt)
  case (PostUpload f u1 u2)
  then show ?thesis using assms
    by (simp add: upload_def getTrackingData_eq Let_def update_conv' split: option.splits)
next
  case (GetViewer x)
  have "map_of (records (s\<lparr>tracking_json := Some (records s)\<rparr>)) tId = None"
    using assms by simp
  from logAccess_lookup_None [OF this] this GetViewer show ?thesis
    by (simp add: viewer_state split: option.splits prod.splits)
next
  case (PostLogDownload k)
  with logAccess_lookup_None [OF assms(1), of k "''download''" req None] show ?thesis
    by (auto simp add: logDownload_def split: prod.splits sum.splits)
next
  case (PostTrackPage k pg)
  with logAccess_lookup_None [OF assms(1), of k "''page_view''" req "Some (parseNumber pg)"]
  show ?thesis
    by (auto simp add: trackPage_def split: prod.splits sum.splits)
next
  case (PostTrackSession k ts pv tp)
  then show ?thesis using trackSession_lookup_None [OF assms(1)] by simp
next
  case (DeleteById k)
  then show ?thesis using assms
    by (simp add: deletePdf_def getTrackingData_eq delete_conv' split: property.splits)
qed (use assms in \<open>auto simp add: getPdf_def download_def stats_def statsAll_def
      getTrackingData_eq split: property.splits\<close>)

lemma run_lookup_None:
  assumes "map_of (records s) tId = None" "\<forall>(rt, rq) \<in> set rs. fresh_id tId rt"
  shows "map_of (records (run rs s)) tId = None"
  using assms by (induction rs arbitrary: s) (auto simp: handle_lookup_None)

lemma absent_short_touch [simp]:
  "absent_short sId (s\<lparr>tracking_json := Some (records s)\<rparr>) = absent_short sId s"
  by (simp add: absent_short_def)

lemma absent_short_uploads [simp]:
  "absent_short sId (s\<lparr>uploads := u\<rparr>) = absent_short sId s"
  by (simp add: absent_short_def)

lemma absent_short_update:
  assumes "absent_short sId s" "shortId v \<noteq> sId"
  shows "absent_short sId (s\<lparr>tracking_json := Some (AList.update k v (records s))\<rparr>)"
  using assms set_update_subset [of k v "records s"]
  by (auto simp add: absent_short_def)

lemma absent_short_own:
  assumes "absent_short sId s" "map_of (records s) k = Some r"
  shows "shortId r \<noteq> sId"
proof -
  have "(k, r) \<in> set (records s)" using assms(2) by (rule map_of_SomeD)
  then show ?thesis using assms(1) by (auto simp: absent_short_def)
qed

lemma logAccess_absent_short:
  assumes "absent_short sId s"
  shows "absent_short sId (snd (logAccess k act req md s))"
proof (cases "map_of (records s) k")
  case None
  then show ?thesis using assms
    by (cases "k \<in> set objectPrototype")
       (simp_all add: logAccess_undefined logAccess_inherited)
next
  case (Some r)
  note own = absent_short_own [OF assms Some]
  show ?thesis
    unfolding logAccess_own [OF Some] snd_conv
    by (rule absent_short_update [OF assms]) (use own in simp)
qed

lemma trackSession_absent_short:
  assumes "absent_short sId s"
  shows "absent_short sId (fst (trackSession k ts pv tp s))"
proof (cases "getProp (records s) k = Inherited")
  case True
  then show ?thesis using assms by (simp add: trackSession_inherited)
next
  case notInh: False
  show ?thesis
  proof (cases "\<exists>r0. map_of (records s) k = Some r0 \<and> accessLogs r0 \<noteq> []
                  \<and> action (last (accessLogs r0)) = ''view''")
    case True
    then obtain r0 where r0: "map_of (records s) k = Some r0" "accessLogs r0 \<noteq> []"
      "action (last (accessLogs r0)) = ''view''" by blast
    note own = absent_short_own [OF assms r0(1)]
    show ?thesis
      unfolding trackSession_view [OF r0] fst_conv
      by (rule absent_short_update [OF assms]) (use own in simp)
  next
    case False
    with notInh assms show ?thesis by (simp add: trackSession_other)
  qed
qed

lemma deletePdf_absent_short:
  assumes "absent_short sId s"
  shows "absent_short sId (fst (deletePdf k s))"
  using assms set_delete_subset [of k "records s"]
  by (auto simp add: deletePdf_def getTrackingData_eq absent_short_def
      split: property.splits)

lemma upload_absent_short:
  assumes "absent_short sId s" "firstSegment u2 \<noteq> sId"
  shows "absent_short sId (fst (upload f u1 u2 req s))"
proof -
  have "absent_short sId
      (s\<lparr>uploads := u, tracking_json := Some (AList.update u2 v (records s))\<rparr>)"
    if "shortId v = firstSegment u2" for u v
    using absent_short_update [of sId "s\<lparr>uploads := u\<rparr>" v u2] assms that by simp
  then show ?thesis using assms(1)
    by (simp add: upload_def getTrackingData_eq Let_def split: option.splits)
qed

lemma handle_absent_short:
  assumes "absent_short sId s" "fresh_short sId rt"
  shows "absent_short sId (fst (handle rt req s))"
proof (cases rt)
  case (PostUpload f u1 u2)
  then show ?thesis using upload_absent_short [OF assms(1)] assms(2) by simp
next
  case (GetViewer x)
  have "absent_short sId (s\<lparr>tracking_json := Some (records s)\<rparr>)" using assms by simp
  from logAccess_absent_short [OF this] this GetViewer show ?thesis
    by (simp add: viewer_state split: option.splits prod.splits)
next
  case (PostLogDownload k)
  with logAccess_absent_short [OF assms(1), of k "''download''" req None] show ?thesis
    by (auto simp add: logDownload_def split: prod.splits sum.splits)
next
  case (PostTrackPage k pg)
  with logAccess_absent_short [OF assms(1), of k "''page_view''" req "Some (parseNumber pg)"]
  show ?thesis
    by (auto simp add: trackPage_def split: prod.splits sum.splits)
next
  case (PostTrackSession k ts pv tp)
  then show ?thesis using trackSession_absent_short [OF assms(1)] by simp
next
  case (DeleteById k)
  then show ?thesis using deletePdf_absent_short [OF assms(1)] by simp
qed (use assms in \<open>auto simp add: getPdf_def download_def stats_def statsAll_def
      getTrackingData_eq split: property.splits\<close>)

lemma run_absent_short:
  assumes "absent_short sId s" "\<forall>(rt, rq) \<in> set rs. fresh_short sId rt"
  shows "absent_short sId (run rs s)"
  using assms by (induction rs arbitrary: s) (auto simp: handle_absent_short)

lemma unknown_not_found:
  assumes "map_of (records s) tId = None" "tId \<notin> set objectPrototype"
  shows "status (snd (stats tId s)) = 404" "status (snd (download tId s)) = 404"
    "status (snd (getPdf tId s)) = 404"
proof -
  have u: "getProp (records s) tId = Undefined"
    using assms by (simp add: getProp_Undefined_iff)
  show "status (snd (stats tId s)) = 404" "status (snd (download tId s)) = 404"
    "status (snd (getPdf tId s)) = 404"
    using u by (simp_all add: stats_def download_def getPdf_def getTrackingData_eq)
qed

lemma absent_short_not_found:
  assumes "absent_short sId s"
  shows "status (snd (viewer sId req s)) = 404"
proof -
  have "find (\<lambda>(_, d). shortId d = sId) (records s) = None"
    using assms by (auto simp add: absent_short_def find_None_iff)
  then show ?thesis by (simp add: viewer_def getTrackingData_eq)
qed

lemma deletePdf_own:
  assumes "map_of (records s) tId = Some r"
  shows "deletePdf tId s =
    (s\<lparr>uploads := uploads s - {fileName r},
       tracking_json := Some (AList.delete tId (records s))\<rparr>, Deleted)"
  using assms
  by (cases s) (auto simp add: deletePdf_def getTrackingData_eq getProp_def saveTrackingData_def)

text \<open>The keys of the store stay distinct, as those of a JSON object are.\<close>

lemma logAccess_keys:
  "map fst (records (snd (logAccess tId act req md s))) = map fst (records s)"
proof (cases "map_of (records s) tId")
  case None
  then show ?thesis
    by (cases "tId \<in> set objectPrototype")
       (simp_all add: logAccess_undefined logAccess_inherited)
next
  case (Some r)
  then have "tId \<in> fst ` set (records s)"
    by (metis map_of_eq_None_iff option.distinct(1))
  then show ?thesis by (simp add: logAccess_own [OF Some] update_keys)
qed

lemma handle_distinct:
  assumes "distinct (map fst (records s))"
  shows "distinct (map fst (records (fst (handle rt req s))))"
proof (cases rt)
  case (PostUpload f u1 u2)
  then show ?thesis using assms
    by (simp add: upload_def getTrackingData_eq Let_def distinct_update split: option.splits)
next
  case (GetViewer sId)
  then show ?thesis using assms
    by (simp add: viewer_state logAccess_keys split: option.splits prod.splits)
next
  case (PostLogDownload tId)
  have "fst (logDownload tId req s) = snd (logAccess tId ''download'' req None s)"
    by (simp add: logDownload_def split: prod.splits sum.splits)
  with PostLogDownload assms show ?thesis by (simp add: logAccess_keys)
next
  case (PostTrackPage tId pg)
  have "fst (trackPage tId pg req s) = snd (logAccess tId ''page_view'' req (Some (parseNumber pg)) s)"
    by (simp add: trackPage_def split: prod.splits sum.splits)
  with PostTrackPage assms show ?thesis by (simp add: logAccess_keys)
next
  case (PostTrackSession tId ts pv tp)
  show ?thesis
  proof (cases rule: trackSession_cases [of s tId ts pv tp])
    case (mutated r0)
    then have "tId \<in> fst ` set (records s)"
      by (metis map_of_eq_None_iff option.distinct(1))
    with mutated(4) PostTrackSession assms show ?thesis by (simp add: update_keys)
  next
    case same
    with PostTrackSession assms show ?thesis by simp
  qed
next
  case (DeleteById tId)
  then show ?thesis using assms
    by (simp add: deletePdf_def getTrackingData_eq distinct_delete split: property.splits)
qed (use assms in \<open>simp_all add: getPdf_def download_def stats_def statsAll_def
      getTrackingData_eq split: property.splits\<close>)

lemma run_distinct:
  "distinct (map fst (records s)) \<Longrightarrow> distinct (map fst (records (run rs s)))"
  by (induction rs arbitrary: s) (auto simp: handle_distinct)

lemma reachable_distinct: "distinct (map fst (records (run rs initial)))"
  by (rule run_distinct) (simp add: records_def getTrackingData_def initial_def)


section \<open>The example states\<close>

lemmas handler_defs = upload_def viewer_def getPdf_def download_def logDownload_def
  trackPage_def trackSession_def stats_def statsAll_def deletePdf_def logAccess_def
  getTrackingData_def saveTrackingData_def getProp_def firstSegment_def Let_def

lemmas example_defs = ex_req_def ex_pdf_def ex_png_def id_a_def id_b_def id_c_def id_f_def id_g_def

lemma records_make [simp]: "records \<lparr>tracking_json = Some d, uploads = u\<rparr> = d"
  by (simp add: records_def getTrackingData_def)

lemma ex_uploaded_eq:
  "ex_uploaded = \<lparr>tracking_json = Some [(id_a, ex_record [] 0 0)],
                   uploads = {id_f @ ''-report.pdf''}\<rparr>"
  by (simp add: ex_uploaded_def ex_record_def handler_defs initial_def example_defs)

lemma ex_viewed_eq:
  "ex_viewed = \<lparr>tracking_json = Some [(id_a, ex_record [accessLogOf ''view'' ex_req None] 1 0)],
                 uploads = {id_f @ ''-report.pdf''}\<rparr>"
  by (simp add: ex_viewed_def ex_uploaded_eq ex_record_def handler_defs)

lemma ex_revisited_eq:
  "ex_revisited = \<lparr>tracking_json = Some [(id_a, ex_record [accessLogOf ''view'' ex_req None,
       accessLogOf ''page_view'' ex_req (Some (Num 1)), accessLogOf ''view'' ex_req None] 2 0)],
     uploads = {id_f @ ''-report.pdf''}\<rparr>"
  by (simp add: ex_revisited_def ex_viewed_eq ex_record_def handler_defs parse_values)

lemma ex_paged_eq:
  "ex_paged = \<lparr>tracking_json = Some [(id_a, ex_record [accessLogOf ''view'' ex_req None,
       accessLogOf ''page_view'' ex_req (Some (Num 1))] 1 0)],
     uploads = {id_f @ ''-report.pdf''}\<rparr>"
  by (simp add: ex_paged_def ex_viewed_eq ex_record_def handler_defs parse_values)

lemma id_a_neq_b: "id_a \<noteq> id_b" "id_b \<noteq> id_a"
  by (simp_all add: id_a_def id_b_def)

lemma id_a_neq_c: "id_a \<noteq> id_c" "id_c \<noteq> id_a"
  by (simp_all add: id_a_def id_c_def)

lemma firstSegment_ids:
  "firstSegment id_a = ''3f2a9c1e''" "firstSegment id_b = ''3f2a9c1e''"
  "firstSegment id_c = ''9b1d4e2f''"
  by (simp_all add: firstSegment_def id_a_def id_b_def id_c_def)

lemma upload_ex_pdf:
  "upload (Some ex_pdf) u1 u2 ex_req s =
     (s\<lparr>uploads := insert (u1 @ ''-report.pdf'') (uploads s),
        tracking_json := Some (AList.update u2 (ex_other u2 (firstSegment u2) u1) (records s))\<rparr>,
      UploadOk u2 (firstSegment u2) (''https://tracker.example.com/v/'' @ firstSegment u2)
        (''https://tracker.example.com/api/stats/'' @ u2))"
  by (simp add: upload_def getTrackingData_eq saveTrackingData_def ex_other_def
      ex_pdf_def ex_req_def Let_def)

lemma ex_two_eq:
  "ex_two = \<lparr>tracking_json = Some [(id_a, ex_record [] 0 0), (id_b, ex_other id_b ''3f2a9c1e'' id_g)],
             uploads = {id_g @ ''-report.pdf'', id_f @ ''-report.pdf''}\<rparr>"
  by (simp add: ex_two_def upload_ex_pdf ex_uploaded_eq id_a_neq_b firstSegment_ids)

lemma ex_pair_eq:
  "ex_pair = \<lparr>tracking_json = Some [(id_a, ex_record [] 0 0), (id_c, ex_other id_c ''9b1d4e2f'' id_g)],
             uploads = {id_g @ ''-report.pdf'', id_f @ ''-report.pdf''}\<rparr>"
  by (simp add: ex_pair_def upload_ex_pdf ex_uploaded_eq id_a_neq_c firstSegment_ids)

lemma ex_session_records:
  "records (run ex_session initial) =
     [(id_a, ex_record [accessLogOf ''view'' ex_req None,
        accessLogOf ''page_view'' ex_req (Some (Num 1)), accessLogOf ''download'' ex_req None,
        (accessLogOf ''view'' ex_req None)\<lparr>timeSpent := Some (JNumber 42),
           pagesViewed := Some (JNumber 1), totalPages := Some (JNumber 4),
           completion := Some (JNumber 25)\<rparr>] 2 1)]"
proof -
  have "run ex_session initial =
      run [(PostTrackPage id_a 1, ex_req), (PostLogDownload id_a, ex_req),
                 (GetViewer ''3f2a9c1e'', ex_req), (PostTrackSession id_a 42 1 4, ex_req)] ex_viewed"
    by (simp add: ex_session_def ex_viewed_def ex_uploaded_def)
  then show ?thesis
    by (simp add: ex_viewed_eq ex_record_def handler_defs parse_values completion_values)
qed


section \<open>The claims\<close>

subsection \<open>Session summaries\<close>

text \<open>
  Claim C1, as amended. When the tracking identifier of a track-session request
  resolves to a record whose last log entry is a view entry, the completion
  written to that entry is \<^verbatim>\<open>Math.round((pagesViewed / totalPages) * 100)\<close>, in
  double arithmetic and as \<^verbatim>\<open>JSON.stringify\<close> saves it, if \<^verbatim>\<open>totalPages\<close> is positive,
  and 0 otherwise; so it is 0 when \<^verbatim>\<open>totalPages\<close> is 0 or negative. When the quotient
  rounds to the double \<open>q\<close> and \<open>q \<times> 100\<close> to the double \<open>y\<close>, it is the integer
  nearest to \<open>y\<close>, ties upwards.
\<close>

theorem trackSession_completion:
  assumes "map_of (records s) tId = Some r" and "accessLogs r \<noteq> []"
    and "action (last (accessLogs r)) = ''view''"
  shows "\<exists>r'. map_of (records (fst (trackSession tId ts pv tp s))) tId = Some r'
          \<and> accessLogs r' \<noteq> []
          \<and> completion (last (accessLogs r')) =
              Some (if gt0 (parseNumber tp)
                    then stringifyNumber (mathRound
                           (jsmul (jsdiv (parseNumber pv) (parseNumber tp)) (Num 100)))
                    else JNumber 0)
          \<and> (tp \<le> 0 \<longrightarrow> completion (last (accessLogs r')) = Some (JNumber 0))
          \<and> (\<forall>p t q y. parseNumber pv = Num p \<and> parseNumber tp = Num t \<and> t > 0
                 \<and> fl (p / t) = Num q \<and> fl (q * 100) = Num y
               \<longrightarrow> completion (last (accessLogs r')) = Some (JNumber (of_int (round y))))"
proof -
  define c where "c = stringifyNumber (sessionCompletion (parseNumber pv) (parseNumber tp))"
  define r' where "r' = r\<lparr>accessLogs := butlast (accessLogs r) @
                          [withSummary ts pv tp (last (accessLogs r))]\<rparr>"
  have stored: "map_of (records (fst (trackSession tId ts pv tp s))) tId = Some r'"
    using assms by (simp add: trackSession_view update_conv' r'_def)
  have logs: "accessLogs r' \<noteq> []" "completion (last (accessLogs r')) = Some c"
    by (simp_all add: r'_def withSummary_def c_def)
  have a: "c = (if gt0 (parseNumber tp)
                then stringifyNumber (mathRound
                       (jsmul (jsdiv (parseNumber pv) (parseNumber tp)) (Num 100)))
                else JNumber 0)"
    by (simp add: c_def sessionCompletion_def)
  have b: "c = JNumber 0" if "tp \<le> 0"
  proof -
    have "\<not> gt0 (parseNumber tp)" using that parseNumber_gt0 [of tp] by auto
    then show ?thesis by (simp add: a)
  qed
  have d: "c = JNumber (of_int (round y))"
    if "parseNumber pv = Num p \<and> parseNumber tp = Num t \<and> t > 0
         \<and> fl (p / t) = Num q \<and> fl (q * 100) = Num y" for p t q y
    using that
    by (simp add: a jsdiv_Num_pos jsmul_Num_100 stringify_mathRound_Num del: mathRound.simps)
  show ?thesis
  proof (intro exI [of _ r'] conjI allI impI)
    show "map_of (records (fst (trackSession tId ts pv tp s))) tId = Some r'"
      by (rule stored)
    show "accessLogs r' \<noteq> []" by (rule logs)
    show "completion (last (accessLogs r')) =
        Some (if gt0 (parseNumber tp)
              then stringifyNumber (mathRound
                     (jsmul (jsdiv (parseNumber pv) (parseNumber tp)) (Num 100)))
              else JNumber 0)"
      using logs(2) a by simp
  next
    assume "tp \<le> 0"
    then show "completion (last (accessLogs r')) = Some (JNumber 0)"
      using logs(2) b by simp
  next
    fix p t q y
    assume "parseNumber pv = Num p \<and> parseNumber tp = Num t \<and> t > 0
         \<and> fl (p / t) = Num q \<and> fl (q * 100) = Num y"
    then show "completion (last (accessLogs r')) = Some (JNumber (of_int (round y)))"
      using logs(2) d by simp
  qed
qed

text \<open>
  23 pages of 40 give 57: the quotient rounds to a double below \<open>0.575\<close> and the
  product to one below \<open>57.5\<close>. One page of four gives 25, one of eight 13 and
  \<open>-1\<close> of eight \<open>-12\<close> (ties go upwards); no page count gives 0.
\<close>

theorem trackSession_completion_witness:
  "map_of (records ex_viewed) id_a = Some (ex_record [accessLogOf ''view'' ex_req None] 1 0)
   \<and> accessLogs (ex_record [accessLogOf ''view'' ex_req None] 1 0) \<noteq> []
   \<and> action (last (accessLogs (ex_record [accessLogOf ''view'' ex_req None] 1 0))) = ''view''
   \<and> (\<exists>r'. map_of (records (fst (trackSession id_a 42 23 40 ex_viewed))) id_a = Some r'
         \<and> completion (last (accessLogs r')) = Some (JNumber 57))
   \<and> (\<exists>r'. map_of (records (fst (trackSession id_a 42 1 4 ex_viewed))) id_a = Some r'
         \<and> completion (last (accessLogs r')) = Some (JNumber 25))
   \<and> (\<exists>r'. map_of (records (fst (trackSession id_a 42 1 8 ex_viewed))) id_a = Some r'
         \<and> completion (last (accessLogs r')) = Some (JNumber 13))
   \<and> (\<exists>r'. map_of (records (fst (trackSession id_a 42 (- 1) 8 ex_viewed))) id_a = Some r'
         \<and> completion (last (accessLogs r')) = Some (JNumber (- 12)))
   \<and> (\<exists>r'. map_of (records (fst (trackSession id_a 42 1 0 ex_viewed))) id_a = Some r'
         \<and> completion (last (accessLogs r')) = Some (JNumber 0))
   \<and> fl (23 / 40) = Num (5179139571476070 / 9007199254740992)
   \<and> fl (5179139571476070 / 9007199254740992 * 100) = Num (8092405580431359 / 140737488355328)
   \<and> round (8092405580431359 / 140737488355328 :: rat) = 57"
proof -
  have h1: "map_of (records ex_viewed) id_a = Some (ex_record [accessLogOf ''view'' ex_req None] 1 0)"
    by (simp add: ex_viewed_eq)
  have h2: "accessLogs (ex_record [accessLogOf ''view'' ex_req None] 1 0) \<noteq> []"
    by (simp add: ex_record_def)
  have h3: "action (last (accessLogs (ex_record [accessLogOf ''view'' ex_req None] 1 0))) = ''view''"
    by (simp add: ex_record_def)
  have v: "stringifyNumber (mathRound (jsmul (jsdiv (Num 23) (Num 40)) (Num 100))) = JNumber 57"
    "stringifyNumber (mathRound (jsmul (jsdiv (Num 1) (Num 4)) (Num 100))) = JNumber 25"
    "stringifyNumber (mathRound (jsmul (jsdiv (Num 1) (Num 8)) (Num 100))) = JNumber 13"
    "stringifyNumber (mathRound (jsmul (jsdiv (Num (- 1)) (Num 8)) (Num 100))) = JNumber (- 12)"
    by (simp_all add: number_defs)
  have p8: "parseNumber 8 = Num 8" by (simp add: number_defs)
  have e1: "\<exists>r'. map_of (records (fst (trackSession id_a 42 23 40 ex_viewed))) id_a = Some r'
         \<and> completion (last (accessLogs r')) = Some (JNumber 57)"
    using trackSession_completion [OF h1 h2 h3, of 42 23 40]
    by (auto simp add: parse_values v)
  have e2: "\<exists>r'. map_of (records (fst (trackSession id_a 42 1 4 ex_viewed))) id_a = Some r'
         \<and> completion (last (accessLogs r')) = Some (JNumber 25)"
    using trackSession_completion [OF h1 h2 h3, of 42 1 4]
    by (auto simp add: parse_values v)
  have e3: "\<exists>r'. map_of (records (fst (trackSession id_a 42 1 8 ex_viewed))) id_a = Some r'
         \<and> completion (last (accessLogs r')) = Some (JNumber 13)"
    using trackSession_completion [OF h1 h2 h3, of 42 1 8]
    by (auto simp add: parse_values p8 v)
  have e4: "\<exists>r'. map_of (records (fst (trackSession id_a 42 (- 1) 8 ex_viewed))) id_a = Some r'
         \<and> completion (last (accessLogs r')) = Some (JNumber (- 12))"
    using trackSession_completion [OF h1 h2 h3, of 42 "- 1" 8]
    by (auto simp add: parse_values p8 v)
  have e5: "\<exists>r'. map_of (records (fst (trackSession id_a 42 1 0 ex_viewed))) id_a = Some r'
         \<and> completion (last (accessLogs r')) = Some (JNumber 0)"
    using trackSession_completion [OF h1 h2 h3, of 42 1 0]
    by (auto simp add: parse_values)
  show ?thesis
    using h1 h2 h3 e1 e2 e3 e4 e5 fl_examples(1,2,3) by blast
qed

text \<open>
  With \<^verbatim>\<open>pagesViewed = 1\<close> and \<^verbatim>\<open>totalPages = -1\<close> the entry receives 0, while the
  rounded quotient is \<open>-100\<close>, in double as in exact arithmetic.
\<close>

theorem completion_negative_total_counterexample:
  "map_of (records ex_viewed) id_a = Some (ex_record [accessLogOf ''view'' ex_req None] 1 0)
   \<and> action (last (accessLogs (ex_record [accessLogOf ''view'' ex_req None] 1 0))) = ''view''
   \<and> map_of (records (fst (trackSession id_a 42 1 (- 1) ex_viewed))) id_a =
       Some (ex_record [(accessLogOf ''view'' ex_req None)\<lparr>timeSpent := Some (JNumber 42),
              pagesViewed := Some (JNumber 1), totalPages := Some (JNumber (- 1)),
              completion := Some (JNumber 0)\<rparr>] 1 0)
   \<and> stringifyNumber (mathRound (jsmul (jsdiv (parseNumber 1) (parseNumber (- 1))) (Num 100))) =
       JNumber (- 100)
   \<and> round ((1 :: rat) / (- 1) * 100) = - 100"
  by (simp add: ex_viewed_eq ex_record_def handler_defs parse_values completion_values)

text \<open>
  Claim C2, as amended. A track-session request never appends: every record keeps
  the length of its log and every entry but the last, no key is added or removed,
  and nothing else of a record changes. The last entry of the addressed record
  receives \<^verbatim>\<open>timeSpent\<close>, \<^verbatim>\<open>pagesViewed\<close>, \<^verbatim>\<open>totalPages\<close> and \<^verbatim>\<open>completion\<close>, in place,
  if it is a view entry; in every other case no record changes at all, so a view
  entry that is followed by another entry never receives them.
\<close>

theorem trackSession_in_place:
  assumes "map_of (records s) k = Some r"
  shows "\<exists>r'. map_of (records (fst (trackSession tId ts pv tp s))) k = Some r'
          \<and> length (accessLogs r') = length (accessLogs r)
          \<and> butlast (accessLogs r') = butlast (accessLogs r)
          \<and> (\<forall>i. i + 1 < length (accessLogs r) \<longrightarrow> accessLogs r' ! i = accessLogs r ! i)
          \<and> r'\<lparr>accessLogs := accessLogs r\<rparr> = r
          \<and> (if k = tId \<and> accessLogs r \<noteq> [] \<and> action (last (accessLogs r)) = ''view''
              then last (accessLogs r') = (last (accessLogs r))
                     \<lparr>timeSpent := Some (stringifyNumber (parseNumber ts)),
                      pagesViewed := Some (stringifyNumber (parseNumber pv)),
                      totalPages := Some (stringifyNumber (parseNumber tp)),
                      completion := Some (stringifyNumber
                        (if gt0 (parseNumber tp)
                         then mathRound (jsmul (jsdiv (parseNumber pv) (parseNumber tp)) (Num 100))
                         else Num 0))\<rparr>
              else r' = r)
          \<and> map fst (records (fst (trackSession tId ts pv tp s))) = map fst (records s)"
proof (cases "\<exists>r0. map_of (records s) tId = Some r0 \<and> accessLogs r0 \<noteq> []
                  \<and> action (last (accessLogs r0)) = ''view''")
  case True
  then obtain r0 where r0: "map_of (records s) tId = Some r0" "accessLogs r0 \<noteq> []"
    "action (last (accessLogs r0)) = ''view''" by blast
  have keys: "tId \<in> fst ` set (records s)"
    using r0(1) by (metis map_of_eq_None_iff option.distinct(1))
  note upd = trackSession_view [OF r0, of ts pv tp]
  show ?thesis
  proof (cases "k = tId")
    case False
    with assms keys show ?thesis by (simp add: upd update_conv' update_keys)
  next
    case True
    with assms r0(1) have [simp]: "r0 = r" by simp
    have nth: "\<forall>i. i + 1 < length (accessLogs r) \<longrightarrow>
            (butlast (accessLogs r) @ [x]) ! i = accessLogs r ! i" for x
      by (simp add: nth_append nth_butlast)
    from True r0 keys nth show ?thesis
      by (simp add: upd update_conv' update_keys withSummary_def sessionCompletion_def)
  qed
next
  case False
  have same: "records (fst (trackSession tId ts pv tp s)) = records s"
  proof (cases "getProp (records s) tId = Inherited")
    case True
    then show ?thesis by (simp add: trackSession_inherited)
  next
    case notInh: False
    with False show ?thesis by (simp add: trackSession_other)
  qed
  from False assms
  have nc: "\<not> (k = tId \<and> accessLogs r \<noteq> [] \<and> action (last (accessLogs r)) = ''view'')"
    by auto
  show ?thesis
    by (rule exI [of _ r]) (simp add: if_not_P [OF nc] same assms)
qed

text \<open>A log of three entries: the first two stay, the third takes the summary.\<close>

theorem trackSession_in_place_witness:
  "map_of (records ex_revisited) id_a =
     Some (ex_record [accessLogOf ''view'' ex_req None,
       accessLogOf ''page_view'' ex_req (Some (Num 1)), accessLogOf ''view'' ex_req None] 2 0)
   \<and> (\<exists>r'. map_of (records (fst (trackSession id_a 42 1 4 ex_revisited))) id_a = Some r'
         \<and> length (accessLogs r') = 3
         \<and> butlast (accessLogs r') =
             [accessLogOf ''view'' ex_req None, accessLogOf ''page_view'' ex_req (Some (Num 1))]
         \<and> accessLogs r' ! 0 = accessLogOf ''view'' ex_req None
         \<and> accessLogs r' ! 1 = accessLogOf ''page_view'' ex_req (Some (Num 1))
         \<and> last (accessLogs r') = (accessLogOf ''view'' ex_req None)
               \<lparr>timeSpent := Some (JNumber 42), pagesViewed := Some (JNumber 1),
                totalPages := Some (JNumber 4), completion := Some (JNumber 25)\<rparr>
         \<and> totalViews r' = 2)
   \<and> map fst (records (fst (trackSession id_a 42 1 4 ex_revisited))) = [id_a]"
proof -
  let ?r = "ex_record [accessLogOf ''view'' ex_req None,
       accessLogOf ''page_view'' ex_req (Some (Num 1)), accessLogOf ''view'' ex_req None] 2 0"
  have h: "map_of (records ex_revisited) id_a = Some ?r"
    by (simp add: ex_revisited_eq)
  have logs: "accessLogs ?r = [accessLogOf ''view'' ex_req None,
       accessLogOf ''page_view'' ex_req (Some (Num 1)), accessLogOf ''view'' ex_req None]"
    by (simp add: ex_record_def)
  have v: "mathRound (jsmul (jsdiv (Num 1) (Num 4)) (Num 100)) = Num 25"
    by (simp add: number_defs)
  from trackSession_in_place [OF h, of id_a 42 1 4]
  obtain r' where r': "map_of (records (fst (trackSession id_a 42 1 4 ex_revisited))) id_a = Some r'"
    "length (accessLogs r') = length (accessLogs ?r)"
    "butlast (accessLogs r') = butlast (accessLogs ?r)"
    "\<forall>i. i + 1 < length (accessLogs ?r) \<longrightarrow> accessLogs r' ! i = accessLogs ?r ! i"
    "r'\<lparr>accessLogs := accessLogs ?r\<rparr> = ?r"
    "last (accessLogs r') = (last (accessLogs ?r))
        \<lparr>timeSpent := Some (JNumber 42), pagesViewed := Some (JNumber 1),
         totalPages := Some (JNumber 4), completion := Some (JNumber 25)\<rparr>"
    "map fst (records (fst (trackSession id_a 42 1 4 ex_revisited))) = map fst (records ex_revisited)"
    by (auto simp add: logs parse_values v)
  have "accessLogs r' ! 0 = accessLogs ?r ! 0" "accessLogs r' ! 1 = accessLogs ?r ! 1"
    using r'(4) by (simp_all add: logs)
  moreover have "totalViews r' = 2"
  proof -
    have "totalViews (r'\<lparr>accessLogs := accessLogs ?r\<rparr>) = totalViews ?r"
      by (simp only: r'(5))
    then show ?thesis by (simp add: ex_record_def)
  qed
  ultimately show ?thesis
    using h r'(1,2,3,6,7) by (simp add: logs ex_revisited_eq)
qed

text \<open>
  After a visit and one page report the last entry is a \<^verbatim>\<open>page_view\<close>: the request
  is answered with success, the state is the same, and the view entry has no summary.
\<close>

theorem trackSession_after_page_view_counterexample:
  "map_of (records ex_paged) id_a =
     Some (ex_record [accessLogOf ''view'' ex_req None,
                      accessLogOf ''page_view'' ex_req (Some (Num 1))] 1 0)
   \<and> trackSession id_a 42 1 4 ex_paged = (ex_paged, Ok)
   \<and> timeSpent (accessLogOf ''view'' ex_req None) = None
   \<and> completion (accessLogOf ''view'' ex_req None) = None"
  by (simp add: ex_paged_eq ex_record_def handler_defs accessLogOf_def)

subsection \<open>Views, uploads, page reports\<close>

text \<open>
  Claim C3. A request for \<^verbatim>\<open>/v/:shortId\<close> that resolves to a record of the store
  (a JSON object, so its keys are distinct) adds one to the record's
  \<^verbatim>\<open>totalViews\<close>, appends one entry with action \<^verbatim>\<open>view\<close>, and changes neither
  \<^verbatim>\<open>totalDownloads\<close> nor anything else of this or of another record.
\<close>

theorem viewer_counts_one_view:
  assumes "distinct (map fst (records s))"
    and "find (\<lambda>(_, d). shortId d = sId) (records s) = Some (tId, r)"
  shows "\<exists>r' e. map_of (records (fst (viewer sId req s))) tId = Some r'
          \<and> totalViews r' = totalViews r + 1
          \<and> accessLogs r' = accessLogs r @ [e] \<and> action e = ''view''
          \<and> totalDownloads r' = totalDownloads r
          \<and> r' = r\<lparr>accessLogs := accessLogs r @ [e], totalViews := totalViews r + 1\<rparr>
          \<and> (\<forall>k. k \<noteq> tId \<longrightarrow>
                map_of (records (fst (viewer sId req s))) k = map_of (records s) k)
          \<and> status (snd (viewer sId req s)) = 200"
proof -
  have own: "map_of (records s) tId = Some r"
    using assms by (rule find_distinct_map_of)
  have "map_of (records (s\<lparr>tracking_json := Some (records s)\<rparr>)) tId = Some r"
    using own by simp
  note la = logAccess_own [OF this, of "''view''" req None]
  show ?thesis
    using assms(2) by (simp add: viewer_def getTrackingData_eq la update_conv')
qed

text \<open>Two records share the short identifier; the first is the one that is counted.\<close>

theorem viewer_counts_one_view_witness:
  "distinct (map fst (records ex_two))
   \<and> find (\<lambda>(_, d). shortId d = ''3f2a9c1e'') (records ex_two) = Some (id_a, ex_record [] 0 0)
   \<and> (\<exists>r'. map_of (records (fst (viewer ''3f2a9c1e'' ex_req ex_two))) id_a = Some r'
         \<and> totalViews r' = 1 \<and> totalDownloads r' = 0 \<and> length (accessLogs r') = 1
         \<and> action (last (accessLogs r')) = ''view'')
   \<and> id_b \<noteq> id_a
   \<and> map_of (records (fst (viewer ''3f2a9c1e'' ex_req ex_two))) id_b = map_of (records ex_two) id_b
   \<and> status (snd (viewer ''3f2a9c1e'' ex_req ex_two)) = 200"
proof -
  have h1: "distinct (map fst (records ex_two))"
    by (simp add: ex_two_eq id_a_neq_b)
  have h2: "find (\<lambda>(_, d). shortId d = ''3f2a9c1e'') (records ex_two) = Some (id_a, ex_record [] 0 0)"
    by (simp add: ex_two_eq ex_record_def)
  from viewer_counts_one_view [OF h1 h2, of ex_req]
  obtain r' e where r': "map_of (records (fst (viewer ''3f2a9c1e'' ex_req ex_two))) id_a = Some r'"
    "totalViews r' = totalViews (ex_record [] 0 0) + 1"
    "accessLogs r' = accessLogs (ex_record [] 0 0) @ [e]" "action e = ''view''"
    "totalDownloads r' = totalDownloads (ex_record [] 0 0)"
    "\<forall>k. k \<noteq> id_a \<longrightarrow>
       map_of (records (fst (viewer ''3f2a9c1e'' ex_req ex_two))) k = map_of (records ex_two) k"
    "status (snd (viewer ''3f2a9c1e'' ex_req ex_two)) = 200"
    by blast
  show ?thesis
    using h1 h2 r' id_a_neq_b by (simp add: ex_record_def)
qed

text \<open>
  Claim C4. After an upload that answered with success, the statistics of the
  returned tracking identifier are a record with no views, no downloads and an
  empty log.
\<close>

theorem stats_after_upload:
  assumes "snd (upload file u1 u2 req s) = UploadOk tId sId link surl"
  shows "\<exists>r. snd (stats tId (fst (upload file u1 u2 req s))) = RecordJson r
          \<and> totalViews r = 0 \<and> totalDownloads r = 0 \<and> accessLogs r = []"
  using assms
  by (auto simp add: upload_def stats_def getTrackingData_eq getProp_def update_conv' Let_def
      split: option.splits if_splits)

text \<open>The first upload of the server.\<close>

theorem stats_after_upload_witness:
  "snd (upload (Some ex_pdf) id_f id_a ex_req initial) =
     UploadOk id_a ''3f2a9c1e'' ''https://tracker.example.com/v/3f2a9c1e''
       (''https://tracker.example.com/api/stats/'' @ id_a)
   \<and> (\<exists>r. snd (stats id_a (fst (upload (Some ex_pdf) id_f id_a ex_req initial))) = RecordJson r
         \<and> totalViews r = 0 \<and> totalDownloads r = 0 \<and> accessLogs r = [])"
proof -
  have h: "snd (upload (Some ex_pdf) id_f id_a ex_req initial) =
     UploadOk id_a ''3f2a9c1e'' ''https://tracker.example.com/v/3f2a9c1e''
       (''https://tracker.example.com/api/stats/'' @ id_a)"
    by (simp add: upload_ex_pdf firstSegment_ids)
  show ?thesis using h stats_after_upload [OF h] by blast
qed

text \<open>
  Claim C5. An upload whose file declares a content type other than
  \<^verbatim>\<open>application/pdf\<close> is answered with an error and leaves the whole state as it
  was: no record is created and no file is stored.
\<close>

theorem upload_rejects_non_pdf:
  assumes "mimetype f \<noteq> ''application/pdf''"
  shows "fst (upload (Some f) u1 u2 req s) = s
       \<and> status (snd (upload (Some f) u1 u2 req s)) = 500
       \<and> records (fst (upload (Some f) u1 u2 req s)) = records s"
  using assms by (simp add: upload_def)

text \<open>A PNG image sent to a server that holds one record.\<close>

theorem upload_rejects_non_pdf_witness:
  "mimetype ex_png \<noteq> ''application/pdf''
   \<and> fst (upload (Some ex_png) id_f id_b ex_req ex_uploaded) = ex_uploaded
   \<and> status (snd (upload (Some ex_png) id_f id_b ex_req ex_uploaded)) = 500
   \<and> records (fst (upload (Some ex_png) id_f id_b ex_req ex_uploaded)) = records ex_uploaded"
proof -
  have h: "mimetype ex_png \<noteq> ''application/pdf''" by (simp add: ex_png_def)
  show ?thesis using h upload_rejects_non_pdf [OF h, of id_f id_b ex_req ex_uploaded] by simp
qed

subsection \<open>Deletion and unknown identifiers\<close>

text \<open>
  Claim C6, as amended. Deleting a record of the store removes the record and its
  backing file. Whatever requests follow, as long as none of them is an upload
  under the same identifier, the record stays removed and, the identifier not being
  the name of a member of \<^verbatim>\<open>Object.prototype\<close>, its statistics, its download and its
  raw file are not found. The viewer page of its short identifier is not found
  provided that no other record of the store had that short identifier and no
  later upload brings it in again.
\<close>

theorem delete_then_not_found:
  assumes "map_of (records s) tId = Some r"
  shows "snd (deletePdf tId s) = Deleted
       \<and> map_of (records (fst (deletePdf tId s))) tId = None
       \<and> fileName r \<notin> uploads (fst (deletePdf tId s))
       \<and> ((\<forall>(rt, rq) \<in> set rs. fresh_id tId rt) \<longrightarrow>
            map_of (records (run rs (fst (deletePdf tId s)))) tId = None
            \<and> (tId \<notin> set objectPrototype \<longrightarrow>
                 status (snd (stats tId (run rs (fst (deletePdf tId s))))) = 404
                 \<and> status (snd (download tId (run rs (fst (deletePdf tId s))))) = 404
                 \<and> status (snd (getPdf tId (run rs (fst (deletePdf tId s))))) = 404))
       \<and> ((\<forall>(k, d) \<in> set (records s). k \<noteq> tId \<longrightarrow> shortId d \<noteq> shortId r)
            \<and> (\<forall>(rt, rq) \<in> set rs. fresh_short (shortId r) rt) \<longrightarrow>
            status (snd (viewer (shortId r) req (run rs (fst (deletePdf tId s))))) = 404)"
proof -
  note d = deletePdf_own [OF assms]
  have gone: "map_of (records (fst (deletePdf tId s))) tId = None"
    by (simp add: d delete_conv')
  have later: "map_of (records (run rs (fst (deletePdf tId s)))) tId = None"
    if "\<forall>(rt, rq) \<in> set rs. fresh_id tId rt"
    using gone that by (rule run_lookup_None)
  have short: "status (snd (viewer (shortId r) req (run rs (fst (deletePdf tId s))))) = 404"
    if "\<forall>(k, d) \<in> set (records s). k \<noteq> tId \<longrightarrow> shortId d \<noteq> shortId r"
      and "\<forall>(rt, rq) \<in> set rs. fresh_short (shortId r) rt"
  proof -
    have "\<forall>(k, d) \<in> set (AList.delete tId (records s)). shortId d \<noteq> shortId r"
      using that(1) by (auto simp add: AList.delete_eq)
    then have "absent_short (shortId r) (fst (deletePdf tId s))"
      by (simp add: d absent_short_def)
    then have "absent_short (shortId r) (run rs (fst (deletePdf tId s)))"
      using that(2) by (rule run_absent_short)
    then show ?thesis by (rule absent_short_not_found)
  qed
  show ?thesis
    using gone later short unknown_not_found [of "run rs (fst (deletePdf tId s))" tId]
    by (simp add: d)
qed

text \<open>Two records with different short identifiers; three more requests follow.\<close>

theorem delete_then_not_found_witness:
  "map_of (records ex_pair) id_a = Some (ex_record [] 0 0)
   \<and> id_a \<notin> set objectPrototype
   \<and> map (shortId \<circ> snd) (records ex_pair) = [''3f2a9c1e'', ''9b1d4e2f'']
   \<and> map fst (records ex_pair) = [id_a, id_c]
   \<and> snd (deletePdf id_a ex_pair) = Deleted
   \<and> map_of (records (fst (deletePdf id_a ex_pair))) id_a = None
   \<and> fileName (ex_record [] 0 0) \<notin> uploads (fst (deletePdf id_a ex_pair))
   \<and> map_of (records (run ex_later (fst (deletePdf id_a ex_pair)))) id_a = None
   \<and> status (snd (stats id_a (run ex_later (fst (deletePdf id_a ex_pair))))) = 404
   \<and> status (snd (download id_a (run ex_later (fst (deletePdf id_a ex_pair))))) = 404
   \<and> status (snd (getPdf id_a (run ex_later (fst (deletePdf id_a ex_pair))))) = 404
   \<and> status (snd (viewer (shortId (ex_record [] 0 0)) ex_req
         (run ex_later (fst (deletePdf id_a ex_pair))))) = 404"
proof -
  have h1: "map_of (records ex_pair) id_a = Some (ex_record [] 0 0)"
    by (simp add: ex_pair_eq)
  have h2: "id_a \<notin> set objectPrototype"
    by (simp add: objectPrototype_def id_a_def)
  have h3: "\<forall>(k, d) \<in> set (records ex_pair). k \<noteq> id_a \<longrightarrow> shortId d \<noteq> shortId (ex_record [] 0 0)"
    by (simp add: ex_pair_eq ex_record_def ex_other_def)
  have h4: "\<forall>(rt, rq) \<in> set ex_later. fresh_id id_a rt"
    "\<forall>(rt, rq) \<in> set ex_later. fresh_short (shortId (ex_record [] 0 0)) rt"
    by (simp_all add: ex_later_def ex_record_def id_a_neq_c firstSegment_ids)
  have h5: "map (shortId \<circ> snd) (records ex_pair) = [''3f2a9c1e'', ''9b1d4e2f'']"
    "map fst (records ex_pair) = [id_a, id_c]"
    by (simp_all add: ex_pair_eq ex_record_def ex_other_def)
  show ?thesis
    using h1 h2 h3 h4 h5 delete_then_not_found [OF h1, of ex_later ex_req]
    by blast
qed

text \<open>
  The source does not check short identifiers for collisions: after two uploads
  whose identifiers begin with the same segment, deleting the first leaves a viewer
  link that now opens, and counts a view of, the second.
\<close>

theorem delete_shared_shortId_counterexample:
  "map_of (records ex_two) id_a = Some (ex_record [] 0 0)
   \<and> snd (deletePdf id_a ex_two) = Deleted
   \<and> map_of (records (fst (deletePdf id_a ex_two))) id_a = None
   \<and> viewer (shortId (ex_record [] 0 0)) ex_req (fst (deletePdf id_a ex_two)) =
       (\<lparr>tracking_json = Some [(id_b, (ex_other id_b ''3f2a9c1e'' id_g)
            \<lparr>accessLogs := [accessLogOf ''view'' ex_req None], totalViews := 1\<rparr>)],
         uploads = {id_g @ ''-report.pdf''}\<rparr>,
        ViewerPage id_b ''report.pdf'' True)
   \<and> status (snd (viewer (shortId (ex_record [] 0 0)) ex_req (fst (deletePdf id_a ex_two)))) = 200"
  by (auto simp add: ex_two_eq ex_record_def ex_other_def handler_defs id_a_def id_b_def id_f_def id_g_def)

text \<open>
  Claim C7, as amended. No request for an identifier that is not in the store
  changes a record. If the identifier is not the name of a member of
  \<^verbatim>\<open>Object.prototype\<close> either, the statistics, raw file, download and delete
  requests are answered with 404, whereas the log-download, track-page and
  track-session requests are answered with \<^verbatim>\<open>{success: true}\<close>: their handlers
  ignore what \<^verbatim>\<open>logAccess\<close> returns. (Those names pass the handlers' truthiness test
  though no record has them; what is answered for them is left open here.)
\<close>

theorem unknown_identifier_responses:
  assumes "map_of (records s) tId = None"
  shows "records (fst (stats tId s)) = records s
       \<and> records (fst (getPdf tId s)) = records s
       \<and> records (fst (download tId s)) = records s
       \<and> records (fst (deletePdf tId s)) = records s
       \<and> records (fst (logDownload tId req s)) = records s
       \<and> records (fst (trackPage tId pg req s)) = records s
       \<and> records (fst (trackSession tId ts pv tp s)) = records s
       \<and> (tId \<notin> set objectPrototype \<longrightarrow>
            status (snd (stats tId s)) = 404
            \<and> status (snd (getPdf tId s)) = 404
            \<and> status (snd (download tId s)) = 404
            \<and> status (snd (deletePdf tId s)) = 404
            \<and> snd (logDownload tId req s) = Ok
            \<and> snd (trackPage tId pg req s) = Ok
            \<and> snd (trackSession tId ts pv tp s) = Ok)"
proof (cases "tId \<in> set objectPrototype")
  case True
  with assms have i: "getProp (records s) tId = Inherited"
    by (simp add: getProp_def)
  show ?thesis
    using True i
    by (simp add: stats_def getPdf_def download_def deletePdf_def logDownload_def
        trackPage_def trackSession_inherited getTrackingData_eq
        logAccess_inherited [OF assms True])
next
  case False
  have u: "getProp (records s) tId = Undefined"
    using assms False by (simp add: getProp_Undefined_iff)
  have "getProp (records s) tId \<noteq> Inherited" using u by simp
  then have ts: "trackSession tId ts pv tp s = (s\<lparr>tracking_json := Some (records s)\<rparr>, Ok)"
    using trackSession_other [of s tId ts pv tp] assms by simp
  show ?thesis
    using u by (simp add: stats_def getPdf_def download_def deletePdf_def logDownload_def
        trackPage_def ts getTrackingData_eq logAccess_undefined [OF assms False])
qed

text \<open>An identifier that was never uploaded.\<close>

theorem unknown_identifier_responses_witness:
  "map_of (records ex_uploaded) id_b = None \<and> id_b \<notin> set objectPrototype
   \<and> status (snd (stats id_b ex_uploaded)) = 404
   \<and> status (snd (getPdf id_b ex_uploaded)) = 404
   \<and> status (snd (download id_b ex_uploaded)) = 404
   \<and> status (snd (deletePdf id_b ex_uploaded)) = 404
   \<and> snd (logDownload id_b ex_req ex_uploaded) = Ok
   \<and> snd (trackPage id_b 3 ex_req ex_uploaded) = Ok
   \<and> snd (trackSession id_b 42 1 4 ex_uploaded) = Ok
   \<and> records (fst (trackSession id_b 42 1 4 ex_uploaded)) = records ex_uploaded
   \<and> records (fst (deletePdf id_b ex_uploaded)) = [(id_a, ex_record [] 0 0)]"
proof -
  have h1: "map_of (records ex_uploaded) id_b = None"
    by (simp add: ex_uploaded_eq id_a_neq_b)
  have h2: "id_b \<notin> set objectPrototype"
    by (simp add: objectPrototype_def id_b_def)
  show ?thesis
    using h1 h2 unknown_identifier_responses [OF h1, of ex_req 3 42 1 4]
    by (simp add: ex_uploaded_eq)
qed

text \<open>The three POST requests for that identifier succeed with status 200.\<close>

theorem unknown_identifier_post_counterexample:
  "map_of (records ex_uploaded) id_b = None
   \<and> logDownload id_b ex_req ex_uploaded = (ex_uploaded, Ok)
   \<and> trackPage id_b 3 ex_req ex_uploaded = (ex_uploaded, Ok)
   \<and> trackSession id_b 42 1 4 ex_uploaded = (ex_uploaded, Ok)
   \<and> status Ok = 200"
  by (simp add: ex_uploaded_eq handler_defs objectPrototype_def id_a_def id_b_def)

text \<open>
  Claim C8. The server does not deduplicate page reports: a track-page request for
  a record of the store appends one entry with action \<^verbatim>\<open>page_view\<close> and the page
  reported, and a second request with the same identifier and page appends a
  second such entry. Nothing else of the record changes.
\<close>

theorem trackPage_appends_each_call:
  assumes "map_of (records s) tId = Some r"
  shows "map_of (records (fst (trackPage tId pg req s))) tId =
           Some (r\<lparr>accessLogs := accessLogs r @
             [\<lparr>timestamp = now req, action = ''page_view'',
               ip = js_or (req_ip req) (remoteAddress req), userAgent = user_agent req,
               page = Some (stringifyNumber (parseNumber pg)),
               timeSpent = None, pagesViewed = None, totalPages = None,
               completion = None\<rparr>]\<rparr>)
       \<and> map_of (records (fst (trackPage tId pg req' (fst (trackPage tId pg req s))))) tId =
           Some (r\<lparr>accessLogs := accessLogs r @
             [\<lparr>timestamp = now req, action = ''page_view'',
               ip = js_or (req_ip req) (remoteAddress req), userAgent = user_agent req,
               page = Some (stringifyNumber (parseNumber pg)),
               timeSpent = None, pagesViewed = None, totalPages = None,
               completion = None\<rparr>,
              \<lparr>timestamp = now req', action = ''page_view'',
               ip = js_or (req_ip req') (remoteAddress req'), userAgent = user_agent req',
               page = Some (stringifyNumber (parseNumber pg)),
               timeSpent = None, pagesViewed = None, totalPages = None,
               completion = None\<rparr>]\<rparr>)"
proof -
  note la = logAccess_own [OF assms, of "''page_view''" req "Some (parseNumber pg)"]
  have one: "map_of (records (fst (trackPage tId pg req s))) tId =
           Some (r\<lparr>accessLogs := accessLogs r @
                   [accessLogOf ''page_view'' req (Some (parseNumber pg))]\<rparr>)"
    by (simp add: trackPage_def la update_conv')
  note lb = logAccess_own [OF one, of "''page_view''" req' "Some (parseNumber pg)"]
  have two: "map_of (records (fst (trackPage tId pg req' (fst (trackPage tId pg req s))))) tId =
           Some (r\<lparr>accessLogs := accessLogs r @
                   [accessLogOf ''page_view'' req (Some (parseNumber pg)),
                    accessLogOf ''page_view'' req' (Some (parseNumber pg))]\<rparr>)"
    by (simp add: trackPage_def [of tId pg req'] lb update_conv')
  show ?thesis using one two by (simp add: accessLogOf_def)
qed

text \<open>Page 3 reported twice after one visit.\<close>

theorem trackPage_appends_each_call_witness:
  "map_of (records ex_viewed) id_a = Some (ex_record [accessLogOf ''view'' ex_req None] 1 0)
   \<and> map_of (records (fst (trackPage id_a 3 ex_req ex_viewed))) id_a =
       Some (ex_record [accessLogOf ''view'' ex_req None,
         \<lparr>timestamp = ''2024-05-01T10:00:00.000Z'', action = ''page_view'',
          ip = Some ''203.0.113.7'', userAgent = Some ''Mozilla/5.0'',
          page = Some (JNumber 3),
          timeSpent = None, pagesViewed = None, totalPages = None, completion = None\<rparr>] 1 0)
   \<and> map_of (records (fst (trackPage id_a 3 ex_req (fst (trackPage id_a 3 ex_req ex_viewed))))) id_a =
       Some (ex_record [accessLogOf ''view'' ex_req None,
         \<lparr>timestamp = ''2024-05-01T10:00:00.000Z'', action = ''page_view'',
          ip = Some ''203.0.113.7'', userAgent = Some ''Mozilla/5.0'',
          page = Some (JNumber 3),
          timeSpent = None, pagesViewed = None, totalPages = None, completion = None\<rparr>,
         \<lparr>timestamp = ''2024-05-01T10:00:00.000Z'', action = ''page_view'',
          ip = Some ''203.0.113.7'', userAgent = Some ''Mozilla/5.0'',
          page = Some (JNumber 3),
          timeSpent = None, pagesViewed = None, totalPages = None, completion = None\<rparr>] 1 0)"
proof -
  have h: "map_of (records ex_viewed) id_a = Some (ex_record [accessLogOf ''view'' ex_req None] 1 0)"
    by (simp add: ex_viewed_eq)
  show ?thesis
    using h trackPage_appends_each_call [OF h, of 3 ex_req ex_req]
    by (simp add: ex_record_def parse_values ex_req_def js_or_def)
qed

text \<open>
  A session summary is dropped with \<^verbatim>\<open>{success: true}\<close>, and nothing stored changes,
  when the identifier is unknown and not an inherited name, when the record's log is
  empty, and when its last entry is not a view entry.
\<close>

lemma trackSession_dropped:
  assumes "tId \<notin> set objectPrototype \<or> map_of (records s) tId \<noteq> None"
    and "map_of (records s) tId = None
       \<or> (\<exists>r. map_of (records s) tId = Some r
              \<and> (accessLogs r = [] \<or> action (last (accessLogs r)) \<noteq> ''view''))"
  shows "snd (trackSession tId ts pv tp s) = Ok
       \<and> records (fst (trackSession tId ts pv tp s)) = records s
       \<and> uploads (fst (trackSession tId ts pv tp s)) = uploads s"
proof -
  have "getProp (records s) tId \<noteq> Inherited"
    using assms(1) by (auto simp add: getProp_def split: option.splits)
  moreover have "\<forall>r. map_of (records s) tId = Some r \<longrightarrow>
       accessLogs r = [] \<or> action (last (accessLogs r)) \<noteq> ''view''"
    using assms(2) by auto
  ultimately show ?thesis by (simp add: trackSession_other)
qed

text \<open>
  Claim C9 at \<^verbatim>\<open>trackingId = "constructor"\<close>, which no record has: the guard
  \<^verbatim>\<open>trackingData[trackingId] &&\<close> finds the inherited member, reading
  \<^verbatim>\<open>accessLogs.length\<close> of it throws, and the request is answered with a 500
  instead of \<^verbatim>\<open>{success: true}\<close>. The records stay as they were.
\<close>

theorem trackSession_inherited_name_error:
  "map_of (records ex_uploaded) ''constructor'' = None
   \<and> trackSession ''constructor'' 42 1 4 ex_uploaded =
       (ex_uploaded, ServerError ''TypeError'')
   \<and> status (snd (trackSession ''constructor'' 42 1 4 ex_uploaded)) = 500"
  by (simp add: ex_uploaded_eq handler_defs objectPrototype_def id_a_def)

subsection \<open>Counters and logs\<close>

text \<open>
  Claim C10. In every state reached from a server without records by any
  sequence of requests, each record's \<^verbatim>\<open>totalViews\<close> is the number of its log
  entries with action \<^verbatim>\<open>view\<close> and its \<^verbatim>\<open>totalDownloads\<close> the number of those
  with action \<^verbatim>\<open>download\<close>.
\<close>

theorem counters_match_log:
  assumes "records s = []" and "(k, r) \<in> set (records (run rs s))"
  shows "totalViews r = length (filter (\<lambda>e. action e = ''view'') (accessLogs r))
       \<and> totalDownloads r = length (filter (\<lambda>e. action e = ''download'') (accessLogs r))"
proof -
  have "all_ok s" using assms(1) by (simp add: all_ok_def)
  then have "all_ok (run rs s)" by (rule run_all_ok)
  with assms(2) have "counters_ok r" by (auto simp: all_ok_def)
  then show ?thesis by (simp add: counters_ok_def)
qed

text \<open>An upload, two visits, a page report, a download and a session summary.\<close>

theorem counters_match_log_witness:
  "records initial = []
   \<and> (id_a, ex_record [accessLogOf ''view'' ex_req None,
        accessLogOf ''page_view'' ex_req (Some (Num 1)), accessLogOf ''download'' ex_req None,
        (accessLogOf ''view'' ex_req None)\<lparr>timeSpent := Some (JNumber 42),
           pagesViewed := Some (JNumber 1), totalPages := Some (JNumber 4),
           completion := Some (JNumber 25)\<rparr>] 2 1)
       \<in> set (records (run ex_session initial))
   \<and> length (filter (\<lambda>e. action e = ''view'') [accessLogOf ''view'' ex_req None,
        accessLogOf ''page_view'' ex_req (Some (Num 1)), accessLogOf ''download'' ex_req None,
        (accessLogOf ''view'' ex_req None)\<lparr>timeSpent := Some (JNumber 42),
           pagesViewed := Some (JNumber 1), totalPages := Some (JNumber 4),
           completion := Some (JNumber 25)\<rparr>]) = 2
   \<and> length (filter (\<lambda>e. action e = ''download'') [accessLogOf ''view'' ex_req None,
        accessLogOf ''page_view'' ex_req (Some (Num 1)), accessLogOf ''download'' ex_req None,
        (accessLogOf ''view'' ex_req None)\<lparr>timeSpent := Some (JNumber 42),
           pagesViewed := Some (JNumber 1), totalPages := Some (JNumber 4),
           completion := Some (JNumber 25)\<rparr>]) = 1"
proof -
  let ?logs = "[accessLogOf ''view'' ex_req None,
        accessLogOf ''page_view'' ex_req (Some (Num 1)), accessLogOf ''download'' ex_req None,
        (accessLogOf ''view'' ex_req None)\<lparr>timeSpent := Some (JNumber 42),
           pagesViewed := Some (JNumber 1), totalPages := Some (JNumber 4),
           completion := Some (JNumber 25)\<rparr>]"
  have h1: "records initial = []"
    by (simp add: records_def getTrackingData_def initial_def)
  have h2: "(id_a, ex_record ?logs 2 1) \<in> set (records (run ex_session initial))"
    by (simp add: ex_session_records)
  show ?thesis
    using h1 h2 counters_match_log [OF h1 h2] by (simp add: ex_record_def)
qed

end
